theory Spec2Isabelle
  imports Complex_Main
begin

section \<open>The runtime the module calls\<close>

text \<open>
  \<^verbatim>\<open>data_generation.py\<close> draws every random number from torch's process-global
  generator and stores its results in float32 tensors. Tensors are modelled as nested
  lists of reals (rank 1, 2 and 3). Rounding is modelled where the result of a call
  depends on it beyond the last digits: in the sampling of the initial state (float32)
  and in the trajectory counts of the splitter (double). The arithmetic of the
  integration loops and of the torques is exact arithmetic on reals. Overflow and the
  values \<open>inf\<close> and \<open>NaN\<close> (what a division by zero yields in floating point) are outside
  the model.
  The generator and standard output form the state a call can observe and change.
\<close>

type_synonym tensor1 = "real list"
type_synonym tensor2 = "real list list"
type_synonym tensor3 = "real list list list"

datatype error =
    NegativeDimension
  | SeedOutOfRange
  | IndexError
  | OverflowError

record 'g world =
  generator :: 'g
  stdout :: "string list"

subsection \<open>Rounding\<close>

definition py_round :: "real \<Rightarrow> int" where
  \<comment> \<open>\<^verbatim>\<open>round(x)\<close>: to the nearest integer, a tie to the even one\<close>
  "py_round x =
     (let f = \<lfloor>x\<rfloor>; d = x - of_int f
      in if d < 1 / 2 then f else if 1 / 2 < d then f + 1 else if even f then f else f + 1)"

text \<open>
  A binary floating-point format with \<open>p\<close> significant bits whose smallest positive
  number is \<open>2\<^sup>-\<^sup>s\<close> holds the multiples of \<open>2\<^sup>-\<^sup>s\<close> that need at most \<open>p\<close> significant bits.
  \<open>round_sig p a\<close> rounds \<open>a \<ge> 0\<close>, counted in units of \<open>2\<^sup>-\<^sup>s\<close>, to the nearest such number, a
  tie to the even mantissa: a number whose integer part has \<open>b\<close> bits is rounded to a
  multiple of \<open>2\<^bsup>b-p\<^esup>\<close> (of \<open>1\<close> when \<open>b \<le> p\<close>, the subnormal range).
\<close>

fun bit_length :: "nat \<Rightarrow> nat" where
  "bit_length n = (if n = 0 then 0 else Suc (bit_length (n div 2)))"

definition round_sig :: "nat \<Rightarrow> real \<Rightarrow> real" where
  "round_sig p a =
     (let ulp = 2 ^ (bit_length (nat \<lfloor>a\<rfloor>) - p)
      in of_int (py_round (a / ulp)) * ulp)"

definition round_binary :: "nat \<Rightarrow> nat \<Rightarrow> real \<Rightarrow> real" where
  "round_binary p s x = sgn x * (round_sig p (\<bar>x\<bar> * 2 ^ s) / 2 ^ s)"

definition to_double :: "real \<Rightarrow> real" where
  \<comment> \<open>the nearest Python float (IEEE double): 53 bits, smallest number \<open>2\<^sup>-\<^sup>1\<^sup>0\<^sup>7\<^sup>4\<close>\<close>
  "to_double = round_binary 53 1074"

definition to_float32 :: "real \<Rightarrow> real" where
  \<comment> \<open>the nearest float32: 24 bits, smallest number \<open>2\<^sup>-\<^sup>1\<^sup>4\<^sup>9\<close>\<close>
  "to_float32 = round_binary 24 149"

definition py_float :: "int \<Rightarrow> error + real" where
  \<comment> \<open>the conversion of an \<^verbatim>\<open>int\<close> operand to \<^verbatim>\<open>float\<close>; too large an \<^verbatim>\<open>int\<close> raises\<close>
  "py_float n =
     (let d = to_double (of_int n) in if 2 ^ 1024 \<le> \<bar>d\<bar> then Inl OverflowError else Inr d)"

definition float_mul_int :: "real \<Rightarrow> int \<Rightarrow> error + real" where
  \<comment> \<open>\<^verbatim>\<open>c * n\<close> for a \<^verbatim>\<open>float\<close> \<open>c\<close> with \<open>\<bar>c\<bar> \<le> 1\<close> and an \<^verbatim>\<open>int\<close> \<open>n\<close>\<close>
  "float_mul_int c n =
     (case py_float n of Inl e \<Rightarrow> Inl e | Inr d \<Rightarrow> Inr (to_double (c * d)))"

subsection \<open>The generator\<close>

text \<open>
  The generator itself is not code of the repository: \<open>seeded s\<close> is the generator state
  after \<^verbatim>\<open>torch.manual_seed(s)\<close>, and \<open>uniform\<close> yields one sample and the next state.
\<close>

record 'g torch =
  seeded :: "int \<Rightarrow> 'g"
  uniform :: "'g \<Rightarrow> real \<times> 'g"

text \<open>
  A call takes the world and returns what the caller receives (the exception or the
  value) together with the world it leaves behind, also when it raises.
\<close>

definition manual_seed :: "'g torch \<Rightarrow> int \<Rightarrow> 'g world \<Rightarrow> (error + unit) \<times> 'g world" where
  \<comment> \<open>torch accepts seeds in \<open>[-0x8000_0000_0000_0000, 0xffff_ffff_ffff_ffff]\<close> and raises otherwise.\<close>
  "manual_seed P seed w =
     (if seed < - (2 ^ 63) \<or> 2 ^ 64 \<le> seed then (Inl SeedOutOfRange, w)
      else (Inr (), w\<lparr>generator := seeded P seed\<rparr>))"

fun fill :: "('g \<Rightarrow> 'a \<times> 'g) \<Rightarrow> nat \<Rightarrow> 'g \<Rightarrow> 'a list \<times> 'g" where
  "fill nxt 0 g = ([], g)"
| "fill nxt (Suc n) g =
     (case nxt g of (x, g') \<Rightarrow> (case fill nxt n g' of (xs, g'') \<Rightarrow> (x # xs, g'')))"

definition torch_rand :: "'g torch \<Rightarrow> int \<Rightarrow> 'g world \<Rightarrow> (error + tensor1) \<times> 'g world" where
  \<comment> \<open>\<^verbatim>\<open>torch.rand(n)\<close>: \<open>n\<close> samples, one after the other; a negative size raises.\<close>
  "torch_rand P n w =
     (if n < 0 then (Inl NegativeDimension, w)
      else (case fill (uniform P) (nat n) (generator w) of
              (xs, g) \<Rightarrow> (Inr xs, w\<lparr>generator := g\<rparr>)))"

definition torch_rand2 :: "'g torch \<Rightarrow> int \<Rightarrow> int \<Rightarrow> 'g world \<Rightarrow> (error + tensor2) \<times> 'g world" where
  \<comment> \<open>\<^verbatim>\<open>torch.rand(n, m)\<close>, filled in row-major order\<close>
  "torch_rand2 P n m w =
     (if n < 0 \<or> m < 0 then (Inl NegativeDimension, w)
      else (case fill (fill (uniform P) (nat m)) (nat n) (generator w) of
              (xs, g) \<Rightarrow> (Inr xs, w\<lparr>generator := g\<rparr>)))"

definition torch_rand3 :: "'g torch \<Rightarrow> int \<Rightarrow> int \<Rightarrow> int \<Rightarrow> 'g world \<Rightarrow> (error + tensor3) \<times> 'g world" where
  \<comment> \<open>\<^verbatim>\<open>torch.rand(n, m, k)\<close>, filled in row-major order\<close>
  "torch_rand3 P n m k w =
     (if n < 0 \<or> m < 0 \<or> k < 0 then (Inl NegativeDimension, w)
      else (case fill (fill (fill (uniform P) (nat k)) (nat m)) (nat n) (generator w) of
              (xs, g) \<Rightarrow> (Inr xs, w\<lparr>generator := g\<rparr>)))"

subsection \<open>Formatting and printing\<close>

fun decimal :: "nat \<Rightarrow> string" where
  "decimal n =
     (if n < 10 then [''0123456789'' ! n] else decimal (n div 10) @ [''0123456789'' ! (n mod 10)])"

definition format_4f :: "real \<Rightarrow> string" where
  \<comment> \<open>the format specification \<^verbatim>\<open>:.4f\<close>\<close>
  "format_4f x =
     (let n = nat (py_round (\<bar>x\<bar> * 10000));
          frac = decimal (n mod 10000)
      in (if x < 0 then ''-'' else []) @ decimal (n div 10000) @ ''.''
           @ replicate (4 - length frac) (CHR ''0'') @ frac)"

definition print_line :: "string \<Rightarrow> 'g world \<Rightarrow> 'g world" where
  \<comment> \<open>\<^verbatim>\<open>print(s)\<close>\<close>
  "print_line s w = w\<lparr>stdout := stdout w @ [s]\<rparr>"

subsection \<open>Tensor creation\<close>

definition torch_zeros3 :: "nat \<Rightarrow> nat \<Rightarrow> nat \<Rightarrow> tensor3" where
  "torch_zeros3 n m k = replicate n (replicate m (replicate k 0))"

subsection \<open>Elementwise tensor arithmetic\<close>

text \<open>
  Every rank-1 tensor of a call has the length \<open>numICs\<close>, so the elementwise operations
  never meet operands of different shapes.
\<close>

definition scale :: "real \<Rightarrow> tensor1 \<Rightarrow> tensor1" where
  \<comment> \<open>scalar \<open>*\<close> tensor\<close>
  "scale c v = map (\<lambda>x. c * x) v"

definition shift :: "tensor1 \<Rightarrow> real \<Rightarrow> tensor1" where
  \<comment> \<open>tensor \<open>+\<close> scalar\<close>
  "shift v c = map (\<lambda>x. x + c) v"

definition vadd :: "tensor1 \<Rightarrow> tensor1 \<Rightarrow> tensor1" where
  "vadd a b = map2 (\<lambda>x y. x + y) a b"

definition vsub :: "tensor1 \<Rightarrow> tensor1 \<Rightarrow> tensor1" where
  "vsub a b = map2 (\<lambda>x y. x - y) a b"

definition vmul :: "tensor1 \<Rightarrow> tensor1 \<Rightarrow> tensor1" where
  "vmul a b = map2 (\<lambda>x y. x * y) a b"

definition vdiv :: "tensor1 \<Rightarrow> tensor1 \<Rightarrow> tensor1" where
  "vdiv a b = map2 (\<lambda>x y. x / y) a b"

definition vsquare :: "tensor1 \<Rightarrow> tensor1" where
  \<comment> \<open>\<^verbatim>\<open>x ** 2\<close>\<close>
  "vsquare v = map (\<lambda>x. x ^ 2) v"

definition vneg :: "tensor1 \<Rightarrow> tensor1" where
  "vneg v = map (\<lambda>x. - x) v"

definition scaled :: "tensor1 \<Rightarrow> real \<Rightarrow> tensor1" where
  \<comment> \<open>tensor \<open>*\<close> scalar\<close>
  "scaled v c = map (\<lambda>x. x * c) v"

definition sadd :: "real \<Rightarrow> tensor1 \<Rightarrow> tensor1" where
  \<comment> \<open>scalar \<open>+\<close> tensor\<close>
  "sadd c v = map (\<lambda>x. c + x) v"

definition sdiv :: "real \<Rightarrow> tensor1 \<Rightarrow> tensor1" where
  \<comment> \<open>scalar \<open>/\<close> tensor\<close>
  "sdiv c v = map (\<lambda>x. c / x) v"

definition round32 :: "tensor1 \<Rightarrow> tensor1" where
  \<comment> \<open>the float32 result of a tensor operation\<close>
  "round32 v = map to_float32 v"

definition scale_to_range :: "real \<times> real \<Rightarrow> tensor1 \<Rightarrow> tensor1" where
  \<comment> \<open>\<^verbatim>\<open>(rng[1] - rng[0]) * r + rng[0]\<close> for a float32 tensor \<open>r\<close>: the difference is a
      subtraction of Python floats; the product and the sum are float32 operations, which
      take their scalar operand as a float32\<close>
  "scale_to_range rng r =
     round32 (shift (round32 (scale (to_float32 (to_double (snd rng - fst rng))) r))
                    (to_float32 (fst rng)))"

definition vcos :: "tensor1 \<Rightarrow> tensor1" where
  "vcos v = map cos v"

definition vsin :: "tensor1 \<Rightarrow> tensor1" where
  "vsin v = map sin v"

subsection \<open>Slices\<close>

text \<open>
  The only index of the module that can be negative is \<open>t - 1\<close> in \<^verbatim>\<open>u[:, t-1]\<close>; its read
  is modelled with Python's wrap-around and its \<^verbatim>\<open>IndexError\<close>. Every other index is a
  loop index \<open>t\<close> of \<^verbatim>\<open>range(T)\<close> into a tensor with \<open>T\<close> time steps, or a constant
  column below the tensor's width.
\<close>

definition column :: "tensor2 \<Rightarrow> int \<Rightarrow> error + tensor1" where
  \<comment> \<open>\<^verbatim>\<open>u[:, k]\<close>: a negative \<open>k\<close> counts from the end; out of range raises.\<close>
  "column u k =
     (if list_all (\<lambda>row. - int (length row) \<le> k \<and> k < int (length row)) u
      then Inr (map (\<lambda>row. row ! nat (if k < 0 then int (length row) + k else k)) u)
      else Inl IndexError)"

definition store_last :: "tensor3 \<Rightarrow> nat \<Rightarrow> tensor2 \<Rightarrow> tensor3" where
  \<comment> \<open>\<^verbatim>\<open>xuk[:, :, c] = u\<close>\<close>
  "store_last xuk c u = map2 (\<lambda>traj urow. map2 (\<lambda>cell x. cell[c := x]) traj urow) xuk u"

definition store_from :: "tensor3 \<Rightarrow> nat \<Rightarrow> tensor3 \<Rightarrow> tensor3" where
  \<comment> \<open>\<^verbatim>\<open>data[:, :, c:] = tau\<close>\<close>
  "store_from data c tau = map2 (\<lambda>traj trow. map2 (\<lambda>cell xs. take c cell @ xs) traj trow) data tau"

definition store_step :: "tensor3 \<Rightarrow> nat \<Rightarrow> nat \<Rightarrow> tensor1 \<Rightarrow> tensor3" where
  \<comment> \<open>\<^verbatim>\<open>xuk[:, t, c] = v\<close>: the values are copied into the buffer.\<close>
  "store_step xuk t c v = map2 (\<lambda>traj x. traj[t := (traj ! t)[c := x]]) xuk v"

section \<open>The scalar oscillator\<close>

text \<open>
  A loop \<^verbatim>\<open>for t in range(T): body\<close> runs the body over the list of its indices and
  stops at the first exception.
\<close>

fun for_loop :: "(nat \<Rightarrow> 's \<Rightarrow> error + 's) \<Rightarrow> nat list \<Rightarrow> 's \<Rightarrow> error + 's" where
  "for_loop body [] s = Inr s"
| "for_loop body (t # ts) s =
     (case body t s of Inl e \<Rightarrow> Inl e | Inr s' \<Rightarrow> for_loop body ts s')"

text \<open>
  The loop body of \<^verbatim>\<open>generate_data\<close> and of \<^verbatim>\<open>generate_data_unforced\<close> (the two
  bodies are the same text). The state is \<open>(x1, x2, xuk)\<close>; \<^verbatim>\<open>x1 += dx1\<close> updates a
  tensor that nothing else refers to.
\<close>

definition euler_body ::
  "real \<Rightarrow> real \<Rightarrow> real \<Rightarrow> tensor2 \<Rightarrow> nat \<Rightarrow> tensor1 \<times> tensor1 \<times> tensor3
     \<Rightarrow> error + (tensor1 \<times> tensor1 \<times> tensor3)" where
  "euler_body mu dt dt_lam u t s =
     (case s of (x1, x2, xuk) \<Rightarrow>
       (let xuk = store_step xuk t 0 x1;
            xuk = store_step xuk t 1 x2
        in (case column u (int t - 1) of
              Inl e \<Rightarrow> Inl e
            | Inr u_prev \<Rightarrow>
                (let dx1 = vadd (scale (dt * mu) x1) (scale dt u_prev);
                     dx2 = scale dt_lam (vsub x2 (vsquare x1))
                 in Inr (vadd x1 dx1, vadd x2 dx2, xuk)))))"

definition oscillator_init ::
  "real \<times> real \<Rightarrow> real \<times> real \<Rightarrow> int \<Rightarrow> int \<Rightarrow> tensor1 \<Rightarrow> tensor1 \<Rightarrow> tensor2
     \<Rightarrow> tensor1 \<times> tensor1 \<times> tensor3" where
  \<comment> \<open>the state on entry to the loop, from the three draws \<open>r1\<close>, \<open>r2\<close> and the control \<open>u\<close>\<close>
  "oscillator_init x1range x2range numICs T r1 r2 u =
     (let x1 = scale_to_range x1range r1;
          x2 = scale_to_range x2range r2;
          xuk = torch_zeros3 (nat numICs) (nat T) 3;
          xuk = store_last xuk 2 u
      in (x1, x2, xuk))"

definition oscillator ::
  "real \<times> real \<Rightarrow> real \<times> real \<Rightarrow> int \<Rightarrow> real \<Rightarrow> real \<Rightarrow> int \<Rightarrow> real
     \<Rightarrow> tensor1 \<Rightarrow> tensor1 \<Rightarrow> tensor2 \<Rightarrow> error + (tensor1 \<times> tensor1 \<times> tensor3)" where
  \<comment> \<open>the text both simulators share after their draws; the result is the state at loop exit\<close>
  "oscillator x1range x2range numICs mu lam T dt r1 r2 u =
     (let dt_lam = dt * lam
      in for_loop (euler_body mu dt dt_lam u) [0..<nat T]
           (oscillator_init x1range x2range numICs T r1 r2 u))"

definition generate_data ::
  "'g torch \<Rightarrow> real \<times> real \<Rightarrow> real \<times> real \<Rightarrow> int \<Rightarrow> real \<Rightarrow> real \<Rightarrow> int \<Rightarrow> real \<Rightarrow> int
     \<Rightarrow> 'g world \<Rightarrow> (error + tensor3) \<times> 'g world" where
  "generate_data P x1range x2range numICs mu lam T dt seed w =
     (case manual_seed P seed w of (Inl e, w0) \<Rightarrow> (Inl e, w0) | (Inr _, w0) \<Rightarrow>
     (case torch_rand P numICs w0 of (Inl e, w1) \<Rightarrow> (Inl e, w1) | (Inr r1, w1) \<Rightarrow>
     (case torch_rand P numICs w1 of (Inl e, w2) \<Rightarrow> (Inl e, w2) | (Inr r2, w2) \<Rightarrow>
     (case torch_rand2 P numICs T w2 of (Inl e, w3) \<Rightarrow> (Inl e, w3) | (Inr r3, w3) \<Rightarrow>
     (case oscillator x1range x2range numICs mu lam T dt r1 r2 (map (map (\<lambda>r. r - 0.5)) r3) of
        Inl e \<Rightarrow> (Inl e, w3)
      | Inr (x1, x2, xuk) \<Rightarrow> (Inr xuk, w3))))))"

definition generate_data_unforced ::
  "'g torch \<Rightarrow> real \<times> real \<Rightarrow> real \<times> real \<Rightarrow> int \<Rightarrow> real \<Rightarrow> real \<Rightarrow> int \<Rightarrow> real \<Rightarrow> int
     \<Rightarrow> 'g world \<Rightarrow> (error + tensor3) \<times> 'g world" where
  "generate_data_unforced P x1range x2range numICs mu lam T_step dt seed w =
     (case manual_seed P seed w of (Inl e, w0) \<Rightarrow> (Inl e, w0) | (Inr _, w0) \<Rightarrow>
     (case torch_rand P numICs w0 of (Inl e, w1) \<Rightarrow> (Inl e, w1) | (Inr r1, w1) \<Rightarrow>
     (case torch_rand P numICs w1 of (Inl e, w2) \<Rightarrow> (Inl e, w2) | (Inr r2, w2) \<Rightarrow>
     (case torch_rand2 P numICs T_step w2 of (Inl e, w3) \<Rightarrow> (Inl e, w3) | (Inr r3, w3) \<Rightarrow>
     (case oscillator x1range x2range numICs mu lam T_step dt r1 r2 (map (map (\<lambda>r. r * 0)) r3) of
        Inl e \<Rightarrow> (Inl e, w3)
      | Inr (x1, x2, xuk) \<Rightarrow> (Inr xuk, w3))))))"

section \<open>The two-link arm\<close>

text \<open>
  The loop body of \<^verbatim>\<open>generate_two_link_data\<close>. The state is
  \<open>(q1, q2, dq1, dq2, data)\<close>; \<open>M22\<close> is a number, every other intermediate a tensor.
\<close>

definition two_link_body ::
  "real \<Rightarrow> real \<Rightarrow> real \<Rightarrow> real \<Rightarrow> real \<Rightarrow> real \<Rightarrow> real \<Rightarrow> real \<Rightarrow> real \<Rightarrow> tensor3 \<Rightarrow> nat
     \<Rightarrow> tensor1 \<times> tensor1 \<times> tensor1 \<times> tensor1 \<times> tensor3
     \<Rightarrow> error + (tensor1 \<times> tensor1 \<times> tensor1 \<times> tensor1 \<times> tensor3)" where
  "two_link_body m1 m2 l1 lc1 lc2 I1 I2 g dt tau t s =
     (case s of (q1, q2, dq1, dq2, data) \<Rightarrow>
       (let data = store_step data t 0 q1;
            data = store_step data t 1 q2;
            data = store_step data t 2 dq1;
            data = store_step data t 3 dq2;
            cos_q2 = vcos q2;
            sin_q2 = vsin q2;
            cos_q1q2 = vcos (vadd q1 q2);
            M11 = sadd (I1 + I2 + m1 * lc1\<^sup>2)
                    (scale m2 (sadd (l1\<^sup>2 + lc2\<^sup>2) (scale (2 * l1 * lc2) cos_q2)));
            M12 = sadd I2 (scale m2 (sadd (lc2\<^sup>2) (scale (l1 * lc2) cos_q2)));
            M21 = M12;
            M22 = I2 + m2 * lc2\<^sup>2;
            detM = vsub (scaled M11 M22) (vmul M12 M21);
            invM11 = sdiv M22 detM;
            invM12 = vdiv (vneg M12) detM;
            invM21 = vdiv (vneg M21) detM;
            invM22 = vdiv M11 detM;
            h = scale (- m2 * l1 * lc2) sin_q2;
            C1 = vmul (vmul h dq2) (vadd (scale 2 dq1) dq2);
            C2 = vmul h (vsquare dq1);
            G1 = vadd (scale ((m1 * lc1 + m2 * l1) * g) (vcos q1)) (scale (m2 * lc2 * g) cos_q1q2);
            G2 = scale (m2 * lc2 * g) cos_q1q2;
            tau_t = map (\<lambda>traj. traj ! t) tau;
            rhs1 = vsub (vsub (map (\<lambda>row. row ! 0) tau_t) C1) G1;
            rhs2 = vsub (vsub (map (\<lambda>row. row ! 1) tau_t) C2) G2;
            ddq1 = vadd (vmul invM11 rhs1) (vmul invM12 rhs2);
            ddq2 = vadd (vmul invM21 rhs1) (vmul invM22 rhs2);
            dq1 = vadd dq1 (scaled ddq1 dt);
            dq2 = vadd dq2 (scaled ddq2 dt);
            q1 = vadd q1 (scaled dq1 dt);
            q2 = vadd q2 (scaled dq2 dt)
        in Inr (q1, q2, dq1, dq2, data)))"

definition two_link_init ::
  "real \<times> real \<Rightarrow> real \<times> real \<Rightarrow> real \<times> real \<Rightarrow> real \<times> real \<Rightarrow> int \<Rightarrow> int
     \<Rightarrow> tensor1 \<Rightarrow> tensor1 \<Rightarrow> tensor1 \<Rightarrow> tensor1 \<Rightarrow> tensor3
     \<Rightarrow> tensor1 \<times> tensor1 \<times> tensor1 \<times> tensor1 \<times> tensor3" where
  \<comment> \<open>the state on entry to the loop, from the four draws and the torques \<open>tau\<close>\<close>
  "two_link_init q1_range q2_range dq1_range dq2_range numICs T r1 r2 r3 r4 tau =
     (let q1 = scale_to_range q1_range r1;
          q2 = scale_to_range q2_range r2;
          dq1 = scale_to_range dq1_range r3;
          dq2 = scale_to_range dq2_range r4;
          data = torch_zeros3 (nat numICs) (nat T) 6;
          data = store_from data 4 tau
      in (q1, q2, dq1, dq2, data))"

text \<open>
  The defaults of the source are \<open>tau_max = 1\<close>, \<open>m1 = m2 = l1 = l2 = 1\<close> and
  \<open>g = 9.81\<close>; the model takes every argument.
\<close>

definition generate_two_link_data ::
  "'g torch \<Rightarrow> real \<times> real \<Rightarrow> real \<times> real \<Rightarrow> real \<times> real \<Rightarrow> real \<times> real \<Rightarrow> int \<Rightarrow> int \<Rightarrow> real \<Rightarrow> int
     \<Rightarrow> real \<Rightarrow> real \<Rightarrow> real \<Rightarrow> real \<Rightarrow> real \<Rightarrow> real
     \<Rightarrow> 'g world \<Rightarrow> (error + tensor3) \<times> 'g world" where
  "generate_two_link_data P q1_range q2_range dq1_range dq2_range numICs T dt seed
       tau_max m1 m2 l1 l2 g w =
     (case manual_seed P seed w of (Inl e, w0) \<Rightarrow> (Inl e, w0) | (Inr _, w0) \<Rightarrow>
     (let lc1 = l1 / 2; lc2 = l2 / 2;
          I1 = m1 * lc1\<^sup>2;
          I2 = m2 * lc2\<^sup>2;
          w0 = print_line (''Computed Inertia: I1 = '' @ format_4f I1 @ '', I2 = '' @ format_4f I2) w0
      in
     (case torch_rand P numICs w0 of (Inl e, w1) \<Rightarrow> (Inl e, w1) | (Inr r1, w1) \<Rightarrow>
     (case torch_rand P numICs w1 of (Inl e, w2) \<Rightarrow> (Inl e, w2) | (Inr r2, w2) \<Rightarrow>
     (case torch_rand P numICs w2 of (Inl e, w3) \<Rightarrow> (Inl e, w3) | (Inr r3, w3) \<Rightarrow>
     (case torch_rand P numICs w3 of (Inl e, w4) \<Rightarrow> (Inl e, w4) | (Inr r4, w4) \<Rightarrow>
     (case torch_rand3 P numICs T 2 w4 of (Inl e, w5) \<Rightarrow> (Inl e, w5) | (Inr r5, w5) \<Rightarrow>
     (let tau = map (map (map (\<lambda>r. (r - 0.5) * 2 * tau_max))) r5
      in
     (case for_loop (two_link_body m1 m2 l1 lc1 lc2 I1 I2 g dt tau) [0..<nat T]
             (two_link_init q1_range q2_range dq1_range dq2_range numICs T r1 r2 r3 r4 tau) of
        Inl e \<Rightarrow> (Inl e, w5)
      | Inr (q1, q2, dq1, dq2, data) \<Rightarrow> (Inr data, w5))))))))))"

section \<open>The dataset splitter\<close>

text \<open>
  The literals \<^verbatim>\<open>0.1\<close>, \<^verbatim>\<open>0.2\<close> and \<^verbatim>\<open>0.7\<close> denote the nearest doubles, and each product
  with \<^verbatim>\<open>numICs\<close> is a multiplication of doubles, rounded again before \<^verbatim>\<open>round\<close> sees it.
\<close>

definition DataGenerator ::
  "'g torch \<Rightarrow> real \<times> real \<Rightarrow> real \<times> real \<Rightarrow> int \<Rightarrow> real \<Rightarrow> real \<Rightarrow> int \<Rightarrow> real
     \<Rightarrow> 'g world \<Rightarrow> (error + tensor3 \<times> tensor3 \<times> tensor3) \<times> 'g world" where
  "DataGenerator P x1range x2range numICs mu lam T dt w =
     (case float_mul_int (to_double 0.1) numICs of Inl e \<Rightarrow> (Inl e, w) | Inr p1 \<Rightarrow>
     (case generate_data P x1range x2range (py_round p1) mu lam T dt 1 w of
        (Inl e, w1) \<Rightarrow> (Inl e, w1) | (Inr test_tensor, w1) \<Rightarrow>
     (case float_mul_int (to_double 0.2) numICs of Inl e \<Rightarrow> (Inl e, w1) | Inr p2 \<Rightarrow>
     (case generate_data P x1range x2range (py_round p2) mu lam T dt 2 w1 of
        (Inl e, w2) \<Rightarrow> (Inl e, w2) | (Inr val_tensor, w2) \<Rightarrow>
     (case float_mul_int (to_double 0.7) numICs of Inl e \<Rightarrow> (Inl e, w2) | Inr p3 \<Rightarrow>
     (case generate_data P x1range x2range (py_round p3) mu lam T dt 3 w2 of
        (Inl e, w3) \<Rightarrow> (Inl e, w3) | (Inr train_tensor, w3) \<Rightarrow>
     (Inr (train_tensor, test_tensor, val_tensor), w3)))))))"

section \<open>Shapes, loop invariants and sample inputs\<close>

text \<open>
  The definitions below serve the statements and proofs: the shape of a tensor, what the
  oscillator loop maintains, the state after the first \<open>k\<close> iterations, the seeds torch
  accepts, the draws of one call, and a small generator to run the simulators on.
\<close>

definition shaped2 :: "nat \<Rightarrow> nat \<Rightarrow> tensor2 \<Rightarrow> bool" where
  "shaped2 n m u = (length u = n \<and> list_all (\<lambda>row. length row = m) u)"

definition shaped3 :: "nat \<Rightarrow> nat \<Rightarrow> nat \<Rightarrow> tensor3 \<Rightarrow> bool" where
  "shaped3 n m k x =
     (length x = n \<and> list_all (\<lambda>traj. length traj = m \<and> list_all (\<lambda>cell. length cell = k) traj) x)"

definition osc_inv :: "nat \<Rightarrow> nat \<Rightarrow> tensor1 \<times> tensor1 \<times> tensor3 \<Rightarrow> bool" where
  "osc_inv n m s = (case s of (x1, x2, xuk) \<Rightarrow> length x1 = n \<and> length x2 = n \<and> shaped3 n m 3 xuk)"

definition oscillator_prefix ::
  "real \<times> real \<Rightarrow> real \<times> real \<Rightarrow> int \<Rightarrow> real \<Rightarrow> real \<Rightarrow> int \<Rightarrow> real
     \<Rightarrow> tensor1 \<Rightarrow> tensor1 \<Rightarrow> tensor2 \<Rightarrow> nat \<Rightarrow> error + (tensor1 \<times> tensor1 \<times> tensor3)" where
  "oscillator_prefix x1range x2range numICs mu lam T dt r1 r2 u k =
     for_loop (euler_body mu dt (dt * lam) u) [0..<k]
       (oscillator_init x1range x2range numICs T r1 r2 u)"

definition osc_rec :: "nat \<Rightarrow> nat \<Rightarrow> tensor2 \<Rightarrow> tensor1 \<times> tensor1 \<times> tensor3 \<Rightarrow> bool" where
  "osc_rec n m u s =
     (osc_inv n m s \<and> list_all (\<lambda>i. list_all (\<lambda>t. snd (snd s) ! i ! t ! 2 = u ! i ! t) [0..<m]) [0..<n])"

definition seed_ok :: "int \<Rightarrow> bool" where
  "seed_ok seed = (- (2 ^ 63) \<le> seed \<and> seed < 2 ^ 64)"

definition oscillator_draws :: "'g torch \<Rightarrow> int \<Rightarrow> int \<Rightarrow> int \<Rightarrow> tensor1 \<times> tensor1 \<times> tensor2 \<times> 'g" where
  "oscillator_draws P numICs T seed =
     (case fill (uniform P) (nat numICs) (seeded P seed) of (r1, g1) \<Rightarrow>
     (case fill (uniform P) (nat numICs) g1 of (r2, g2) \<Rightarrow>
     (case fill (fill (uniform P) (nat T)) (nat numICs) g2 of (r3, g3) \<Rightarrow>
       (r1, r2, r3, g3))))"

definition cycle_torch :: "nat torch" where
  "cycle_torch = \<lparr>seeded = (\<lambda>s. nat \<bar>s\<bar>), uniform = (\<lambda>k. (real (k mod 4) / 4, Suc k))\<rparr>"

definition world0 :: "nat world" where
  "world0 = \<lparr>generator = 7, stdout = []\<rparr>"

text \<open>
  The first draws of torch's default CPU generator after \<^verbatim>\<open>torch.manual_seed(0)\<close>, to the
  four decimals torch prints (\<open>0.4963, 0.7682, 0.0885, ...\<close>), as a generator that
  repeats them.
\<close>

definition torch_seed0 :: "nat torch" where
  "torch_seed0 =
     \<lparr>seeded = (\<lambda>s. 0),
      uniform = (\<lambda>k. (real ([4963, 7682, 885, 1320, 3074, 6341, 4901, 8964, 4556, 6323] ! (k mod 10)) / 10000,
                      Suc k))\<rparr>"

text \<open>
  The same for the two-link arm: the draws of one call, the line it prints, the state
  after the first \<open>k\<close> iterations, and what its loop maintains.
\<close>

definition two_link_draws ::
  "'g torch \<Rightarrow> int \<Rightarrow> int \<Rightarrow> int \<Rightarrow> tensor1 \<times> tensor1 \<times> tensor1 \<times> tensor1 \<times> tensor3 \<times> 'g" where
  "two_link_draws P numICs T seed =
     (case fill (uniform P) (nat numICs) (seeded P seed) of (r1, g1) \<Rightarrow>
     (case fill (uniform P) (nat numICs) g1 of (r2, g2) \<Rightarrow>
     (case fill (uniform P) (nat numICs) g2 of (r3, g3) \<Rightarrow>
     (case fill (uniform P) (nat numICs) g3 of (r4, g4) \<Rightarrow>
     (case fill (fill (fill (uniform P) 2) (nat T)) (nat numICs) g4 of (r5, g5) \<Rightarrow>
       (r1, r2, r3, r4, r5, g5))))))"

definition inertia_line :: "real \<Rightarrow> real \<Rightarrow> real \<Rightarrow> real \<Rightarrow> string" where
  "inertia_line m1 m2 l1 l2 =
     ''Computed Inertia: I1 = '' @ format_4f (m1 * (l1 / 2)\<^sup>2) @ '', I2 = '' @ format_4f (m2 * (l2 / 2)\<^sup>2)"

definition two_link_prefix ::
  "real \<times> real \<Rightarrow> real \<times> real \<Rightarrow> real \<times> real \<Rightarrow> real \<times> real \<Rightarrow> int \<Rightarrow> int \<Rightarrow> real
     \<Rightarrow> real \<Rightarrow> real \<Rightarrow> real \<Rightarrow> real \<Rightarrow> real
     \<Rightarrow> tensor1 \<Rightarrow> tensor1 \<Rightarrow> tensor1 \<Rightarrow> tensor1 \<Rightarrow> tensor3 \<Rightarrow> nat
     \<Rightarrow> error + (tensor1 \<times> tensor1 \<times> tensor1 \<times> tensor1 \<times> tensor3)" where
  "two_link_prefix q1_range q2_range dq1_range dq2_range numICs T dt m1 m2 l1 l2 g r1 r2 r3 r4 tau k =
     for_loop (two_link_body m1 m2 l1 (l1 / 2) (l2 / 2) (m1 * (l1 / 2)\<^sup>2) (m2 * (l2 / 2)\<^sup>2) g dt tau)
       [0..<k] (two_link_init q1_range q2_range dq1_range dq2_range numICs T r1 r2 r3 r4 tau)"

definition arm_inv ::
  "nat \<Rightarrow> nat \<Rightarrow> tensor3 \<Rightarrow> tensor1 \<times> tensor1 \<times> tensor1 \<times> tensor1 \<times> tensor3 \<Rightarrow> bool" where
  "arm_inv n m tau s =
     (case s of (q1, q2, dq1, dq2, data) \<Rightarrow>
        length q1 = n \<and> length q2 = n \<and> length dq1 = n \<and> length dq2 = n \<and> shaped3 n m 6 data
      \<and> list_all (\<lambda>i. list_all (\<lambda>t. data ! i ! t ! 4 = tau ! i ! t ! 0 \<and> data ! i ! t ! 5 = tau ! i ! t ! 1)
                    [0..<m]) [0..<n])"

text \<open>
  The joint accelerations of one trajectory in the words of the specification:
  \<open>ddq = M(q)\<^sup>-\<^sup>1 (tau - C - G)\<close>, the inverse of the 2x2 inertia matrix taken in closed form
  with the determinant \<open>M11 * M22 - M12 * M21\<close>.
\<close>

definition two_link_accel ::
  "real \<Rightarrow> real \<Rightarrow> real \<Rightarrow> real \<Rightarrow> real \<Rightarrow> real \<Rightarrow> real \<Rightarrow> real \<Rightarrow> real \<Rightarrow> real \<Rightarrow> real \<Rightarrow> real \<times> real" where
  "two_link_accel m1 m2 l1 l2 g q1 q2 dq1 dq2 tau1 tau2 =
     (let lc1 = l1 / 2; lc2 = l2 / 2;
          I1 = m1 * lc1\<^sup>2; I2 = m2 * lc2\<^sup>2;
          M11 = I1 + I2 + m1 * lc1\<^sup>2 + m2 * (l1\<^sup>2 + lc2\<^sup>2 + 2 * l1 * lc2 * cos q2);
          M12 = I2 + m2 * (lc2\<^sup>2 + l1 * lc2 * cos q2);
          M21 = M12;
          M22 = I2 + m2 * lc2\<^sup>2;
          detM = M11 * M22 - M12 * M21;
          invM11 = M22 / detM;
          invM12 = - M12 / detM;
          invM21 = - M21 / detM;
          invM22 = M11 / detM;
          h = - m2 * l1 * lc2 * sin q2;
          C1 = h * dq2 * (2 * dq1 + dq2);
          C2 = h * dq1\<^sup>2;
          G1 = (m1 * lc1 + m2 * l1) * g * cos q1 + m2 * lc2 * g * cos (q1 + q2);
          G2 = m2 * lc2 * g * cos (q1 + q2);
          rhs1 = tau1 - C1 - G1;
          rhs2 = tau2 - C2 - G2
      in (invM11 * rhs1 + invM12 * rhs2, invM21 * rhs1 + invM22 * rhs2))"

text \<open>A value lies in a range given as a pair \<open>(min, max)\<close>.\<close>

definition in_range :: "real \<times> real \<Rightarrow> real \<Rightarrow> bool" where
  "in_range rng x = (fst rng \<le> x \<and> x \<le> snd rng)"

text \<open>
  One sampled value as float32 arithmetic computes it, in the words of the specification
  \<open>min + r * (max - min)\<close>; the range as float32 arithmetic computes it, from the rounded
  \<open>min\<close> to the rounded sum of the rounded width and \<open>min\<close>; ranges whose bounds stay
  far below the largest float32; and ranges whose bounds and width are float32 numbers,
  such as \<open>(0, 1)\<close> or \<open>(-2, 2)\<close>.
\<close>

definition sample32 :: "real \<times> real \<Rightarrow> real \<Rightarrow> real" where
  "sample32 rng r =
     to_float32 (to_float32 (to_float32 (to_double (snd rng - fst rng)) * r) + to_float32 (fst rng))"

definition range32 :: "real \<times> real \<Rightarrow> real \<times> real" where
  "range32 rng =
     (to_float32 (fst rng),
      to_float32 (to_float32 (to_double (snd rng - fst rng)) + to_float32 (fst rng)))"

definition moderate :: "real \<times> real \<Rightarrow> bool" where
  "moderate rng = (\<bar>fst rng\<bar> \<le> 2 ^ 126 \<and> \<bar>snd rng\<bar> \<le> 2 ^ 126)"

definition float32_range :: "real \<times> real \<Rightarrow> bool" where
  "float32_range rng =
     (to_float32 (fst rng) = fst rng \<and> to_float32 (snd rng) = snd rng
    \<and> to_float32 (to_double (snd rng - fst rng)) = snd rng - fst rng)"

text \<open>The integer \<open>k\<close> is the one nearest to \<open>x\<close>, the even one of two equally near.\<close>

definition nearest_even :: "real \<Rightarrow> int \<Rightarrow> bool" where
  "nearest_even x k = (\<bar>x - of_int k\<bar> \<le> 1 / 2 \<and> (\<bar>x - of_int k\<bar> = 1 / 2 \<longrightarrow> even k))"

section \<open>Properties of rounding\<close>

lemma py_round_nonneg: "0 \<le> x \<Longrightarrow> 0 \<le> py_round x"
  by (auto simp: py_round_def Let_def)

declare bit_length.simps [simp del]

lemma bit_length_0 [simp]: "bit_length 0 = 0"
  by (simp add: bit_length.simps [of 0])

lemma bit_length_less: "n < 2 ^ bit_length n"
proof (induction n rule: bit_length.induct)
  case (1 n)
  show ?case
  proof (cases "n = 0")
    case True
    then show ?thesis by simp
  next
    case False
    then have "n div 2 < 2 ^ bit_length (n div 2)" using 1 by simp
    then have "n < 2 * 2 ^ bit_length (n div 2)" by linarith
    then show ?thesis using False by (simp add: bit_length.simps [of n])
  qed
qed

lemma bit_length_ge: "0 < n \<Longrightarrow> 2 ^ (bit_length n - 1) \<le> n"
proof (induction n rule: bit_length.induct)
  case (1 n)
  show ?case
  proof (cases "n div 2 = 0")
    case True
    then have "n = 1" using 1(2) by linarith
    then show ?thesis by (simp add: bit_length.simps [of "Suc 0"])
  next
    case False
    then have a: "2 ^ (bit_length (n div 2) - 1) \<le> n div 2" using 1 by simp
    have pos: "0 < bit_length (n div 2)" using False by (simp add: bit_length.simps [of "n div 2"])
    have "bit_length n - 1 = Suc (bit_length (n div 2) - 1)"
      using 1(2) pos by (simp add: bit_length.simps [of n])
    then have "(2::nat) ^ (bit_length n - 1) = 2 * 2 ^ (bit_length (n div 2) - 1)" by simp
    also have "\<dots> \<le> 2 * (n div 2)" using a by simp
    also have "\<dots> \<le> n" by simp
    finally show ?thesis .
  qed
qed

lemma bit_length_pos: "0 < n \<Longrightarrow> 0 < bit_length n"
  by (simp add: bit_length.simps [of n])

lemma bit_length_eqI:
  assumes "2 ^ (b - 1) \<le> n" and "n < 2 ^ b" and "0 < b"
  shows "bit_length n = b"
proof -
  have "(0::nat) < 2 ^ (b - 1)" by simp
  then have n: "0 < n" using assms(1) by linarith
  have "(2::nat) ^ (bit_length n - 1) < 2 ^ b" using bit_length_ge [OF n] assms(2) by linarith
  then have a: "bit_length n - 1 < b" by simp
  have "(2::nat) ^ (b - 1) < 2 ^ bit_length n" using bit_length_less [of n] assms(1) by linarith
  then have "b - 1 < bit_length n" by simp
  then show ?thesis using a assms(3) by linarith
qed

lemma bit_length_mono: "m \<le> n \<Longrightarrow> bit_length m \<le> bit_length n"
proof (cases "m = 0")
  case True
  then show ?thesis by simp
next
  case False
  assume "m \<le> n"
  then have "(2::nat) ^ (bit_length m - 1) < 2 ^ bit_length n"
    using bit_length_ge [of m] bit_length_less [of n] False by linarith
  then have "bit_length m - 1 < bit_length n" by simp
  then show ?thesis by linarith
qed

lemma py_round_mono: "x \<le> y \<Longrightarrow> py_round x \<le> py_round y"
proof -
  assume xy: "x \<le> y"
  have fl: "\<lfloor>x\<rfloor> \<le> \<lfloor>y\<rfloor>" using xy by (rule floor_mono)
  show ?thesis
  proof (cases "\<lfloor>x\<rfloor> = \<lfloor>y\<rfloor>")
    case True
    then show ?thesis using xy by (auto simp: py_round_def Let_def)
  next
    case False
    then have "\<lfloor>x\<rfloor> + 1 \<le> \<lfloor>y\<rfloor>" using fl by linarith
    moreover have "py_round x \<le> \<lfloor>x\<rfloor> + 1" by (auto simp: py_round_def Let_def)
    moreover have "\<lfloor>y\<rfloor> \<le> py_round y" by (auto simp: py_round_def Let_def)
    ultimately show ?thesis by linarith
  qed
qed

lemma py_round_of_int [simp]: "py_round (of_int k) = k"
  by (simp add: py_round_def Let_def)

lemma py_round_le: "x \<le> of_int k \<Longrightarrow> py_round x \<le> k"
  using py_round_mono [of x "of_int k"] by simp

lemma py_round_ge: "of_int k \<le> x \<Longrightarrow> k \<le> py_round x"
  using py_round_mono [of "of_int k" x] by simp

lemma floor_bounds_nat:
  fixes a :: real
  assumes "0 \<le> a"
  shows "real (nat \<lfloor>a\<rfloor>) \<le> a" and "a < real (nat \<lfloor>a\<rfloor>) + 1"
  using assms by simp_all

lemma less_two_power_bit_length:
  fixes a :: real
  assumes "0 \<le> a"
  shows "a < 2 ^ bit_length (nat \<lfloor>a\<rfloor>)"
proof -
  have "nat \<lfloor>a\<rfloor> + 1 \<le> 2 ^ bit_length (nat \<lfloor>a\<rfloor>)"
    using bit_length_less [of "nat \<lfloor>a\<rfloor>"] by linarith
  then have "real (nat \<lfloor>a\<rfloor> + 1) \<le> real (2 ^ bit_length (nat \<lfloor>a\<rfloor>))"
    by (rule iffD2 [OF of_nat_le_iff])
  then have "real (nat \<lfloor>a\<rfloor>) + 1 \<le> 2 ^ bit_length (nat \<lfloor>a\<rfloor>)"
    by (simp only: of_nat_power of_nat_numeral of_nat_add of_nat_1)
  then show ?thesis using floor_bounds_nat(2) [OF assms] by linarith
qed

lemma two_power_bit_length_le:
  fixes a :: real
  assumes "0 \<le> a" and "0 < bit_length (nat \<lfloor>a\<rfloor>)"
  shows "2 ^ (bit_length (nat \<lfloor>a\<rfloor>) - 1) \<le> a"
proof -
  have "0 < nat \<lfloor>a\<rfloor>" using assms(2) by (cases "nat \<lfloor>a\<rfloor> = 0") simp_all
  then have "2 ^ (bit_length (nat \<lfloor>a\<rfloor>) - 1) \<le> nat \<lfloor>a\<rfloor>" by (rule bit_length_ge)
  then have "real (2 ^ (bit_length (nat \<lfloor>a\<rfloor>) - 1)) \<le> real (nat \<lfloor>a\<rfloor>)"
    by (rule iffD2 [OF of_nat_le_iff])
  then have "(2::real) ^ (bit_length (nat \<lfloor>a\<rfloor>) - 1) \<le> real (nat \<lfloor>a\<rfloor>)"
    by (simp only: of_nat_power of_nat_numeral)
  then show ?thesis using floor_bounds_nat(1) [OF assms(1)] by linarith
qed

lemma round_sig_nonneg: "0 \<le> a \<Longrightarrow> 0 \<le> round_sig p a"
  by (simp add: round_sig_def Let_def py_round_nonneg)

lemma round_sig_0 [simp]: "round_sig p 0 = 0"
  by (simp add: round_sig_def Let_def py_round_def)

lemma round_sig_le:
  assumes "0 \<le> a"
  shows "round_sig p a \<le> 2 ^ bit_length (nat \<lfloor>a\<rfloor>)"
proof -
  let ?b = "bit_length (nat \<lfloor>a\<rfloor>)"
  have "?b = (?b - (?b - p)) + (?b - p)" by linarith
  then have split: "(2::real) ^ ?b = 2 ^ (?b - (?b - p)) * 2 ^ (?b - p)"
    by (metis power_add)
  have "a / 2 ^ (?b - p) \<le> 2 ^ ?b / 2 ^ (?b - p)"
    using less_two_power_bit_length [OF assms] by (simp add: divide_right_mono)
  also have "\<dots> = of_int (2 ^ (?b - (?b - p)))" by (subst split) simp
  finally have "py_round (a / 2 ^ (?b - p)) \<le> 2 ^ (?b - (?b - p))" by (rule py_round_le)
  then have "real_of_int (py_round (a / 2 ^ (?b - p))) \<le> 2 ^ (?b - (?b - p))"
    by (metis of_int_le_iff of_int_numeral of_int_power)
  then have "real_of_int (py_round (a / 2 ^ (?b - p))) * 2 ^ (?b - p) \<le> 2 ^ (?b - (?b - p)) * 2 ^ (?b - p)"
    by (simp add: mult_right_mono)
  then show ?thesis unfolding round_sig_def Let_def using split by simp
qed

lemma round_sig_ge:
  assumes "0 \<le> a" and "0 < bit_length (nat \<lfloor>a\<rfloor>)" and "0 < p"
  shows "2 ^ (bit_length (nat \<lfloor>a\<rfloor>) - 1) \<le> round_sig p a"
proof -
  let ?b = "bit_length (nat \<lfloor>a\<rfloor>)"
  have le: "?b - p \<le> ?b - 1" using assms(3) by linarith
  have "?b - 1 = (?b - 1 - (?b - p)) + (?b - p)" using le by linarith
  then have split: "(2::real) ^ (?b - 1) = 2 ^ (?b - 1 - (?b - p)) * 2 ^ (?b - p)"
    by (metis power_add)
  have "of_int (2 ^ (?b - 1 - (?b - p))) = (2::real) ^ (?b - 1) / 2 ^ (?b - p)"
    by (subst split) simp
  also have "\<dots> \<le> a / 2 ^ (?b - p)"
    using two_power_bit_length_le [OF assms(1,2)] by (simp add: divide_right_mono)
  finally have "2 ^ (?b - 1 - (?b - p)) \<le> py_round (a / 2 ^ (?b - p))" by (rule py_round_ge)
  then have "(2::real) ^ (?b - 1 - (?b - p)) \<le> real_of_int (py_round (a / 2 ^ (?b - p)))"
    by (metis of_int_le_iff of_int_numeral of_int_power)
  then have "2 ^ (?b - 1 - (?b - p)) * 2 ^ (?b - p) \<le> real_of_int (py_round (a / 2 ^ (?b - p))) * 2 ^ (?b - p)"
    by (simp add: mult_right_mono)
  then show ?thesis unfolding round_sig_def Let_def using split by simp
qed

lemma round_sig_mono:
  assumes "0 \<le> a" and "a \<le> a'" and "0 < p"
  shows "round_sig p a \<le> round_sig p a'"
proof -
  let ?b = "bit_length (nat \<lfloor>a\<rfloor>)" and ?b' = "bit_length (nat \<lfloor>a'\<rfloor>)"
  have a': "0 \<le> a'" using assms by linarith
  have "nat \<lfloor>a\<rfloor> \<le> nat \<lfloor>a'\<rfloor>" using assms(2) by (simp add: floor_mono nat_mono)
  then have bb: "?b \<le> ?b'" by (rule bit_length_mono)
  show ?thesis
  proof (cases "?b = ?b'")
    case True
    have "a / 2 ^ (?b - p) \<le> a' / 2 ^ (?b - p)" using assms(2) by (simp add: divide_right_mono)
    then have "py_round (a / 2 ^ (?b - p)) \<le> py_round (a' / 2 ^ (?b - p))" by (rule py_round_mono)
    then have "real_of_int (py_round (a / 2 ^ (?b - p))) * 2 ^ (?b - p)
             \<le> real_of_int (py_round (a' / 2 ^ (?b - p))) * 2 ^ (?b - p)"
      by (simp add: mult_right_mono)
    then show ?thesis unfolding round_sig_def Let_def True [symmetric] .
  next
    case False
    then have lt: "?b < ?b'" using bb by linarith
    then have pos: "0 < ?b'" by linarith
    have "round_sig p a \<le> 2 ^ ?b" using assms(1) by (rule round_sig_le)
    also have "(2::real) ^ ?b \<le> 2 ^ (?b' - 1)" using lt by (intro power_increasing) simp_all
    also have "\<dots> \<le> round_sig p a'" using a' pos assms(3) by (rule round_sig_ge)
    finally show ?thesis .
  qed
qed

lemma round_binary_0 [simp]: "round_binary p s 0 = 0"
  by (simp add: round_binary_def)

lemma round_binary_nonneg_eq: "0 \<le> x \<Longrightarrow> round_binary p s x = round_sig p (x * 2 ^ s) / 2 ^ s"
  by (cases "x = 0") (simp_all add: round_binary_def)

lemma round_binary_minus: "round_binary p s (- x) = - round_binary p s x"
  by (simp add: round_binary_def)

lemma round_binary_nonneg: "0 \<le> x \<Longrightarrow> 0 \<le> round_binary p s x"
  by (simp add: round_binary_nonneg_eq round_sig_nonneg)

lemma round_binary_mono_nonneg:
  assumes "0 \<le> x" and "x \<le> y" and "0 < p"
  shows "round_binary p s x \<le> round_binary p s y"
proof -
  have "round_sig p (x * 2 ^ s) \<le> round_sig p (y * 2 ^ s)"
    using assms by (intro round_sig_mono) simp_all
  then show ?thesis using assms by (simp add: round_binary_nonneg_eq divide_right_mono)
qed

lemma round_binary_mono:
  assumes "x \<le> y" and "0 < p"
  shows "round_binary p s x \<le> round_binary p s y"
proof (cases "0 \<le> x")
  case True
  then show ?thesis using assms by (rule round_binary_mono_nonneg)
next
  case False
  show ?thesis
  proof (cases "0 \<le> y")
    case True
    have "round_binary p s x = - round_binary p s (- x)" using round_binary_minus [of p s "- x"] by simp
    moreover have "0 \<le> round_binary p s (- x)" using False by (intro round_binary_nonneg) simp
    moreover have "0 \<le> round_binary p s y" using True by (rule round_binary_nonneg)
    ultimately show ?thesis by linarith
  next
    case y: False
    have "round_binary p s (- y) \<le> round_binary p s (- x)"
      using assms y by (intro round_binary_mono_nonneg) simp_all
    then show ?thesis by (simp add: round_binary_minus)
  qed
qed

lemma bit_length_le: "n < 2 ^ k \<Longrightarrow> bit_length n \<le> k"
proof (cases "n = 0")
  case True
  then show ?thesis by simp
next
  case False
  assume "n < 2 ^ k"
  then have "(2::nat) ^ (bit_length n - 1) < 2 ^ k" using bit_length_ge [of n] False by linarith
  then have "bit_length n - 1 < k" by simp
  then show ?thesis by linarith
qed

lemma bit_length_shift:
  assumes "0 < m"
  shows "bit_length (m * 2 ^ j) = bit_length m + j"
proof (rule bit_length_eqI)
  have "bit_length m + j - 1 = (bit_length m - 1) + j" using bit_length_pos [OF assms] by linarith
  then have "(2::nat) ^ (bit_length m + j - 1) = 2 ^ (bit_length m - 1) * 2 ^ j" by (metis power_add)
  also have "\<dots> \<le> m * 2 ^ j" using bit_length_ge [OF assms] by simp
  finally show "2 ^ (bit_length m + j - 1) \<le> m * 2 ^ j" .
  show "m * 2 ^ j < 2 ^ (bit_length m + j)" using bit_length_less [of m] by (simp add: power_add)
  show "0 < bit_length m + j" using bit_length_pos [OF assms] by linarith
qed

lemma py_round_of_nat [simp]: "py_round (real n) = int n"
  using py_round_of_int [of "int n"] by simp

lemma round_sig_fixed:
  assumes "2 ^ (bit_length N - p) dvd N"
  shows "round_sig p (real N) = real N"
proof -
  let ?d = "(2::nat) ^ (bit_length N - p)"
  have "real N / real ?d = real (N div ?d)" using assms by (simp add: real_of_nat_div)
  then have q: "real N / 2 ^ (bit_length N - p) = of_int (int (N div ?d))" by simp
  have "real (N div ?d) * real ?d = real N" using assms by (metis dvd_div_mult_self of_nat_mult)
  then have "real_of_int (int (N div ?d)) * 2 ^ (bit_length N - p) = real N" by simp
  then show ?thesis unfolding round_sig_def Let_def by (simp add: q)
qed

lemma mantissa_le:
  fixes a :: real
  assumes "0 \<le> a"
  shows "py_round (a / 2 ^ (bit_length (nat \<lfloor>a\<rfloor>) - p))
           \<le> 2 ^ (bit_length (nat \<lfloor>a\<rfloor>) - (bit_length (nat \<lfloor>a\<rfloor>) - p))"
proof -
  let ?b = "bit_length (nat \<lfloor>a\<rfloor>)"
  have "?b = (?b - (?b - p)) + (?b - p)" by linarith
  then have split: "(2::real) ^ ?b = 2 ^ (?b - (?b - p)) * 2 ^ (?b - p)"
    by (metis power_add)
  have "a / 2 ^ (?b - p) \<le> 2 ^ ?b / 2 ^ (?b - p)"
    using less_two_power_bit_length [OF assms] by (simp add: divide_right_mono)
  also have "\<dots> = of_int (2 ^ (?b - (?b - p)))" by (subst split) simp
  finally show ?thesis by (rule py_round_le)
qed

lemma round_sig_representable:
  fixes a :: real
  assumes "0 \<le> a" and "0 < p"
  shows "\<exists>N. round_sig p a = real N \<and> 2 ^ (bit_length N - p) dvd N"
proof -
  let ?b = "bit_length (nat \<lfloor>a\<rfloor>)"
  let ?j = "?b - p"
  let ?m = "nat (py_round (a / 2 ^ ?j))"
  let ?N = "?m * 2 ^ ?j"
  have nn: "0 \<le> py_round (a / 2 ^ ?j)" using assms(1) by (intro py_round_nonneg) simp
  have eq: "round_sig p a = real ?N" using nn by (simp add: round_sig_def Let_def)
  have "py_round (a / 2 ^ ?j) \<le> 2 ^ (?b - ?j)" using assms(1) by (rule mantissa_le)
  then have "int ?m \<le> 2 ^ (?b - ?j)" using nn by simp
  then have "?m \<le> 2 ^ (?b - ?j)" by (metis of_nat_le_iff of_nat_numeral of_nat_power)
  also have "(2::nat) ^ (?b - ?j) \<le> 2 ^ p" by (intro power_increasing) simp_all
  finally have m: "?m \<le> 2 ^ p" .
  have "2 ^ (bit_length ?N - p) dvd ?N"
  proof (cases "?m = 0")
    case True
    then show ?thesis by simp
  next
    case False
    then have pos: "0 < ?m" by simp
    have bl: "bit_length ?N = bit_length ?m + ?j" using pos by (rule bit_length_shift)
    show ?thesis
    proof (cases "bit_length ?m \<le> p")
      case True
      then have "bit_length ?N - p \<le> ?j" unfolding bl by linarith
      then have "(2::nat) ^ (bit_length ?N - p) dvd 2 ^ ?j" by (rule le_imp_power_dvd)
      then show ?thesis by (rule dvd_mult)
    next
      case big: False
      have "bit_length ?m \<le> p + 1"
      proof -
        have "(2::nat) ^ p < 2 ^ (p + 1)" by simp
        then have "?m < 2 ^ (p + 1)" using m by linarith
        then show ?thesis by (rule bit_length_le)
      qed
      then have b1: "bit_length ?m = p + 1" using big by linarith
      have "2 ^ p \<le> ?m" using bit_length_ge [OF pos] unfolding b1 by simp
      then have mp: "?m = 2 ^ p" using m by linarith
      have "bit_length ?N - p = ?j + 1" unfolding bl b1 by simp
      moreover have "?N = 2 ^ (p + ?j)" by (simp only: mp power_add)
      moreover have "(2::nat) ^ (?j + 1) dvd 2 ^ (p + ?j)"
        using assms(2) by (intro le_imp_power_dvd) linarith
      ultimately show ?thesis by simp
    qed
  qed
  then show ?thesis using eq by blast
qed

lemma round_binary_idem:
  assumes "0 < p"
  shows "round_binary p s (round_binary p s x) = round_binary p s x"
proof -
  have nonneg: "round_binary p s (round_binary p s y) = round_binary p s y" if y: "0 \<le> y" for y
  proof -
    obtain N where N: "round_sig p (y * 2 ^ s) = real N" "2 ^ (bit_length N - p) dvd N"
      using round_sig_representable [of "y * 2 ^ s" p] y assms by auto
    have r: "round_binary p s y = real N / 2 ^ s" using y N(1) by (simp add: round_binary_nonneg_eq)
    have "round_binary p s (real N / 2 ^ s) = round_sig p (real N) / 2 ^ s"
      by (simp add: round_binary_nonneg_eq)
    then show ?thesis unfolding r using round_sig_fixed [OF N(2)] by simp
  qed
  show ?thesis
  proof (cases "0 \<le> x")
    case True
    then show ?thesis by (rule nonneg)
  next
    case False
    then have "round_binary p s (round_binary p s (- x)) = round_binary p s (- x)"
      by (intro nonneg) simp
    then show ?thesis by (simp add: round_binary_minus)
  qed
qed

lemma round_binary_less_power:
  assumes "0 \<le> x" and "x < 2 ^ k"
  shows "round_binary p s x \<le> 2 ^ k"
proof -
  let ?a = "x * 2 ^ s"
  have "?a < 2 ^ k * 2 ^ s" using assms(2) by simp
  then have "?a < 2 ^ (k + s)" by (simp add: power_add)
  moreover have "0 \<le> ?a" using assms(1) by simp
  ultimately have "real (nat \<lfloor>?a\<rfloor>) < 2 ^ (k + s)" using floor_bounds_nat(1) [of ?a] by linarith
  then have "nat \<lfloor>?a\<rfloor> < 2 ^ (k + s)" by (metis of_nat_less_iff of_nat_numeral of_nat_power)
  then have "bit_length (nat \<lfloor>?a\<rfloor>) \<le> k + s" by (rule bit_length_le)
  then have "(2::real) ^ bit_length (nat \<lfloor>?a\<rfloor>) \<le> 2 ^ (k + s)" by (intro power_increasing) simp_all
  moreover have "round_sig p ?a \<le> 2 ^ bit_length (nat \<lfloor>?a\<rfloor>)" using assms(1) by (intro round_sig_le) simp
  ultimately have "round_sig p ?a \<le> 2 ^ k * 2 ^ s" by (simp add: power_add)
  then have "round_sig p ?a / 2 ^ s \<le> 2 ^ k" by (simp add: pos_divide_le_eq)
  then show ?thesis using assms(1) by (simp add: round_binary_nonneg_eq)
qed

lemma round_binary_eval:
  assumes "0 < x" and "2 ^ (b - 1) \<le> x * 2 ^ s" and "x * 2 ^ s < 2 ^ b" and "0 < b"
  shows "round_binary p s x = of_int (py_round (x * 2 ^ s / 2 ^ (b - p))) * 2 ^ (b - p) / 2 ^ s"
proof -
  let ?n = "nat \<lfloor>x * 2 ^ s\<rfloor>"
  have nn: "0 \<le> x * 2 ^ s" using assms(1) by simp
  have "(2::int) ^ (b - 1) \<le> \<lfloor>x * 2 ^ s\<rfloor>" using assms(2) by (simp add: le_floor_iff)
  then have lo: "(2::nat) ^ (b - 1) \<le> ?n" by (simp add: le_nat_iff)
  have "real ?n < 2 ^ b" using floor_bounds_nat(1) [OF nn] assms(3) by linarith
  then have hi: "?n < 2 ^ b" by (metis of_nat_less_iff of_nat_numeral of_nat_power)
  have "bit_length ?n = b" using lo hi assms(4) by (rule bit_length_eqI)
  then show ?thesis using assms(1) by (simp add: round_binary_nonneg_eq round_sig_def Let_def)
qed

lemma to_float32_mono: "x \<le> y \<Longrightarrow> to_float32 x \<le> to_float32 y"
  unfolding to_float32_def by (rule round_binary_mono) simp_all

lemma to_float32_idem: "to_float32 (to_float32 x) = to_float32 x"
  unfolding to_float32_def by (rule round_binary_idem) simp

lemma to_float32_nonneg: "0 \<le> x \<Longrightarrow> 0 \<le> to_float32 x"
  unfolding to_float32_def by (rule round_binary_nonneg)

lemma to_double_nonneg: "0 \<le> x \<Longrightarrow> 0 \<le> to_double x"
  unfolding to_double_def by (rule round_binary_nonneg)


section \<open>Properties of the runtime and of the tensor operations\<close>

lemma fill_length [simp]: "length (fst (fill nxt n g)) = n"
proof (induction n arbitrary: g)
  case 0
  then show ?case by simp
next
  case (Suc n)
  obtain x g' where a: "nxt g = (x, g')" by (cases "nxt g")
  obtain xs g'' where b: "fill nxt n g' = (xs, g'')" by (cases "fill nxt n g'")
  show ?case using Suc.IH [of g'] a b by simp
qed

lemma fill_list_all: "(\<And>g. Q (fst (nxt g))) \<Longrightarrow> list_all Q (fst (fill nxt n g))"
proof (induction n arbitrary: g)
  case 0
  then show ?case by simp
next
  case (Suc n)
  obtain x g' where a: "nxt g = (x, g')" by (cases "nxt g")
  obtain xs g'' where b: "fill nxt n g' = (xs, g'')" by (cases "fill nxt n g'")
  have "Q x" using Suc.prems [of g] a by simp
  moreover have "list_all Q xs" using Suc.IH [OF Suc.prems, of g'] b by simp
  ultimately show ?case using a b by simp
qed

lemma length_scale [simp]: "length (scale c v) = length v" by (simp add: scale_def)

lemma length_shift [simp]: "length (shift v c) = length v" by (simp add: shift_def)

lemma length_vadd [simp]: "length (vadd a b) = min (length a) (length b)" by (simp add: vadd_def)

lemma length_vsub [simp]: "length (vsub a b) = min (length a) (length b)" by (simp add: vsub_def)

lemma length_vmul [simp]: "length (vmul a b) = min (length a) (length b)" by (simp add: vmul_def)

lemma length_vdiv [simp]: "length (vdiv a b) = min (length a) (length b)" by (simp add: vdiv_def)

lemma length_vsquare [simp]: "length (vsquare v) = length v" by (simp add: vsquare_def)

lemma length_vneg [simp]: "length (vneg v) = length v" by (simp add: vneg_def)

lemma nth_scale [simp]: "i < length v \<Longrightarrow> scale c v ! i = c * v ! i" by (simp add: scale_def)

lemma nth_shift [simp]: "i < length v \<Longrightarrow> shift v c ! i = v ! i + c" by (simp add: shift_def)

lemma nth_vadd [simp]: "i < length a \<Longrightarrow> i < length b \<Longrightarrow> vadd a b ! i = a ! i + b ! i" by (simp add: vadd_def)

lemma nth_vsub [simp]: "i < length a \<Longrightarrow> i < length b \<Longrightarrow> vsub a b ! i = a ! i - b ! i" by (simp add: vsub_def)

lemma nth_vmul [simp]: "i < length a \<Longrightarrow> i < length b \<Longrightarrow> vmul a b ! i = a ! i * b ! i" by (simp add: vmul_def)

lemma nth_vdiv [simp]: "i < length a \<Longrightarrow> i < length b \<Longrightarrow> vdiv a b ! i = a ! i / b ! i" by (simp add: vdiv_def)

lemma nth_vsquare [simp]: "i < length v \<Longrightarrow> vsquare v ! i = (v ! i)^2" by (simp add: vsquare_def)

lemma nth_vneg [simp]: "i < length v \<Longrightarrow> vneg v ! i = - v ! i" by (simp add: vneg_def)

lemma length_round32 [simp]: "length (round32 v) = length v" by (simp add: round32_def)
lemma nth_round32 [simp]: "i < length v \<Longrightarrow> round32 v ! i = to_float32 (v ! i)" by (simp add: round32_def)

lemma length_scale_to_range [simp]: "length (scale_to_range rng r) = length r"
  by (simp add: scale_to_range_def)

lemma nth_scale_to_range: "i < length r \<Longrightarrow> scale_to_range rng r ! i = sample32 rng (r ! i)"
  by (simp add: scale_to_range_def sample32_def)

lemma to_double_0 [simp]: "to_double 0 = 0" by (simp add: to_double_def)
lemma to_float32_0 [simp]: "to_float32 0 = 0" by (simp add: to_float32_def)

lemma to_double_1 [simp]: "to_double 1 = 1"
  unfolding to_double_def
  by (subst round_binary_eval [where b = 1075]) (simp_all add: py_round_def Let_def)

lemma to_float32_1 [simp]: "to_float32 1 = 1"
  unfolding to_float32_def
  by (subst round_binary_eval [where b = 150]) (simp_all add: py_round_def Let_def)

lemma to_float32_quarter: "to_float32 (1 / 4) = 1 / 4"
  unfolding to_float32_def
  by (subst round_binary_eval [where b = 148]) (simp_all add: py_round_def Let_def)

lemma to_float32_half: "to_float32 (1 / 2) = 1 / 2"
  unfolding to_float32_def
  by (subst round_binary_eval [where b = 149]) (simp_all add: py_round_def Let_def)

lemma to_float32_three_quarters: "to_float32 (3 / 4) = 3 / 4"
  unfolding to_float32_def
  by (subst round_binary_eval [where b = 149]) (simp_all add: py_round_def Let_def)

lemma scale_to_range_zero: "scale_to_range (0, 0) r = map (\<lambda>x. 0) r"
  by (simp add: scale_to_range_def round32_def scale_def shift_def)

lemma scale_to_range_unit:
  "scale_to_range (0, 1) [0, 1 / 4] = [0, 1 / 4]"
  "scale_to_range (0, 1) [1 / 2, 3 / 4] = [1 / 2, 3 / 4]"
  by (simp_all add: scale_to_range_def round32_def scale_def shift_def
      to_float32_quarter to_float32_half to_float32_three_quarters)

lemma length_store_step [simp]: "length (store_step xuk t c v) = min (length xuk) (length v)"
  by (simp add: store_step_def)

lemma nth_store_step:
  "i < length xuk \<Longrightarrow> i < length v \<Longrightarrow>
   store_step xuk t c v ! i = (xuk ! i)[t := (xuk ! i ! t)[c := v ! i]]"
  by (simp add: store_step_def)

lemma length_store_last [simp]: "length (store_last xuk c u) = min (length xuk) (length u)"
  by (simp add: store_last_def)

lemma nth_store_last:
  "i < length xuk \<Longrightarrow> i < length u \<Longrightarrow> t < length (xuk ! i) \<Longrightarrow> t < length (u ! i) \<Longrightarrow>
   store_last xuk c u ! i ! t = (xuk ! i ! t)[c := u ! i ! t]"
  by (simp add: store_last_def)

lemma length_nth_store_last:
  "i < length xuk \<Longrightarrow> i < length u \<Longrightarrow>
   length (store_last xuk c u ! i) = min (length (xuk ! i)) (length (u ! i))"
  by (simp add: store_last_def)

lemma for_loop_append:
  "for_loop body (ts @ ts') s =
     (case for_loop body ts s of Inl e \<Rightarrow> Inl e | Inr s' \<Rightarrow> for_loop body ts' s')"
  by (induction ts arbitrary: s) (auto split: sum.splits)

lemma column_ok:
  assumes "list_all (\<lambda>row. length row = m) u" and "t < m"
  shows "column u (int t - 1) = Inr (map (\<lambda>row. row ! (if t = 0 then m - 1 else t - 1)) u)"
proof -
  have ok: "list_all (\<lambda>row. - int (length row) \<le> int t - 1 \<and> int t - 1 < int (length row)) u"
    using assms by (auto simp: list_all_iff)
  have "map (\<lambda>row. row ! nat (if int t - 1 < 0 then int (length row) + (int t - 1) else int t - 1)) u
      = map (\<lambda>row. row ! (if t = 0 then m - 1 else t - 1)) u"
    using assms by (auto simp: list_all_iff nat_diff_distrib)
  then show ?thesis using ok by (simp add: column_def)
qed

lemma shaped2_nth: "shaped2 n m u \<Longrightarrow> i < n \<Longrightarrow> length (u ! i) = m"
  by (simp add: shaped2_def list_all_length)

lemma shaped3_nth: "shaped3 n m k x \<Longrightarrow> i < n \<Longrightarrow> length (x ! i) = m"
  by (simp add: shaped3_def list_all_length)

lemma shaped3_nth_nth: "shaped3 n m k x \<Longrightarrow> i < n \<Longrightarrow> t < m \<Longrightarrow> length (x ! i ! t) = k"
  by (simp add: shaped3_def list_all_length)

lemma shaped3_length: "shaped3 n m k x \<Longrightarrow> length x = n"
  by (simp add: shaped3_def)

lemma shaped2_length: "shaped2 n m u \<Longrightarrow> length u = n"
  by (simp add: shaped2_def)

lemma shaped3_I:
  "length x = n \<Longrightarrow> (\<And>i. i < n \<Longrightarrow> length (x ! i) = m) \<Longrightarrow>
   (\<And>i t. i < n \<Longrightarrow> t < m \<Longrightarrow> length (x ! i ! t) = k) \<Longrightarrow> shaped3 n m k x"
  by (simp add: shaped3_def list_all_length)

lemma shaped2_I:
  "length u = n \<Longrightarrow> (\<And>i. i < n \<Longrightarrow> length (u ! i) = m) \<Longrightarrow> shaped2 n m u"
  by (simp add: shaped2_def list_all_length)

lemma shaped3_zeros: "shaped3 n m k (torch_zeros3 n m k)"
  by (rule shaped3_I) (simp_all add: torch_zeros3_def)

lemma shaped3_store_step:
  assumes "shaped3 n m k x" and "length v = n"
  shows "shaped3 n m k (store_step x t c v)"
proof (rule shaped3_I)
  show "length (store_step x t c v) = n" using assms by (simp add: shaped3_def)
next
  fix i assume "i < n"
  then show "length (store_step x t c v ! i) = m"
    using assms shaped3_nth [OF assms(1), of i] shaped3_length [OF assms(1)]
    by (simp add: nth_store_step)
next
  fix i t' assume "i < n" "t' < m"
  then show "length (store_step x t c v ! i ! t') = k"
    using assms shaped3_nth_nth [OF assms(1), of i t'] shaped3_nth_nth [OF assms(1), of i t]
      shaped3_nth [OF assms(1), of i] shaped3_length [OF assms(1)]
    by (cases "t' = t") (simp_all add: nth_store_step)
qed

lemma shaped3_store_last:
  assumes "shaped3 n m k x" and "shaped2 n m u"
  shows "shaped3 n m k (store_last x c u)"
proof (rule shaped3_I)
  show "length (store_last x c u) = n" using assms by (simp add: shaped3_length shaped2_length)
next
  fix i assume "i < n"
  then show "length (store_last x c u ! i) = m"
    using assms by (simp add: length_nth_store_last shaped3_length shaped2_length shaped3_nth shaped2_nth)
next
  fix i t assume "i < n" "t < m"
  then show "length (store_last x c u ! i ! t) = k"
    using assms shaped3_nth_nth [OF assms(1), of i t]
    by (simp add: nth_store_last shaped3_length shaped2_length shaped3_nth shaped2_nth)
qed

lemma cell3_update: "length c = 3 \<Longrightarrow> c[0 := a, Suc 0 := b] = [a, b, c ! 2]"
  by (cases c; cases "tl c"; cases "tl (tl c)") auto

lemma euler_body_eq:
  assumes "shaped2 n m u" and "t < m"
  shows "euler_body mu dt dl u t (x1, x2, xuk) =
    Inr (vadd x1 (vadd (scale (dt * mu) x1) (scale dt (map (\<lambda>row. row ! (if t = 0 then m - 1 else t - 1)) u))),
         vadd x2 (scale dl (vsub x2 (vsquare x1))),
         store_step (store_step xuk t 0 x1) t 1 x2)"
  using assms column_ok [of m u t] by (simp add: euler_body_def shaped2_def)

lemma euler_body_inv:
  assumes "shaped2 n m u" and "t < m" and "osc_inv n m s" and "euler_body mu dt dl u t s = Inr s'"
  shows "osc_inv n m s'"
proof -
  obtain x1 x2 xuk where s: "s = (x1, x2, xuk)" by (cases s)
  have len: "length u = n" using assms(1) by (simp add: shaped2_def)
  show ?thesis
    using assms(3,4) len unfolding s euler_body_eq [OF assms(1,2)]
    by (auto simp: osc_inv_def intro!: shaped3_store_step)
qed

lemma for_loop_invariant:
  assumes "for_loop body ts s = Inr s'" and "I s"
    and "\<And>t a b. t \<in> set ts \<Longrightarrow> I a \<Longrightarrow> body t a = Inr b \<Longrightarrow> I b"
  shows "I s'"
  using assms
proof (induction ts arbitrary: s)
  case Nil
  then show ?case by simp
next
  case (Cons t ts)
  from Cons.prems(1) obtain a where a: "body t s = Inr a" and rest: "for_loop body ts a = Inr s'"
    by (auto split: sum.splits)
  have "I a" using Cons.prems(3) [of t s a] Cons.prems(2) a by simp
  moreover have "\<And>t' a b. t' \<in> set ts \<Longrightarrow> I a \<Longrightarrow> body t' a = Inr b \<Longrightarrow> I b"
    using Cons.prems(3) by (meson list.set_intros(2))
  ultimately show ?case using Cons.IH [OF rest] by blast
qed

lemma for_loop_total:
  assumes "I s"
    and "\<And>t a. t \<in> set ts \<Longrightarrow> I a \<Longrightarrow> \<exists>b. body t a = Inr b \<and> I b"
  shows "\<exists>s'. for_loop body ts s = Inr s' \<and> I s'"
  using assms
proof (induction ts arbitrary: s)
  case Nil
  then show ?case by simp
next
  case (Cons t ts)
  obtain a where a: "body t s = Inr a" "I a" using Cons.prems(2) [of t s] Cons.prems(1) by auto
  have "\<And>t' a. t' \<in> set ts \<Longrightarrow> I a \<Longrightarrow> \<exists>b. body t' a = Inr b \<and> I b"
    using Cons.prems(2) by (meson list.set_intros(2))
  then have "\<exists>s'. for_loop body ts a = Inr s' \<and> I s'"
    using Cons.IH [OF a(2)] by blast
  then show ?case using a by simp
qed

lemma osc_rec_iff:
  "osc_rec n m u (x1, x2, xuk) \<longleftrightarrow>
     length x1 = n \<and> length x2 = n \<and> shaped3 n m 3 xuk \<and> (\<forall>i<n. \<forall>t<m. xuk ! i ! t ! 2 = u ! i ! t)"
  by (auto simp: osc_rec_def osc_inv_def list_all_iff)

lemma oscillator_prefix_full:
  "oscillator x1range x2range numICs mu lam T dt r1 r2 u =
   oscillator_prefix x1range x2range numICs mu lam T dt r1 r2 u (nat T)"
  by (simp add: oscillator_def oscillator_prefix_def)

lemma nth_nth_store_step:
  "i < length xuk \<Longrightarrow> i < length v \<Longrightarrow> t' < length (xuk ! i) \<Longrightarrow>
   store_step xuk t c v ! i ! t' = (if t' = t then (xuk ! i ! t)[c := v ! i] else xuk ! i ! t')"
  by (simp add: nth_store_step)

lemma store_two_nth:
  assumes "shaped3 n m 3 xuk" and "length x1 = n" and "length x2 = n" and "i < n" and "t' < m"
  shows "store_step (store_step xuk t 0 x1) t 1 x2 ! i ! t' =
         (if t' = t then [x1 ! i, x2 ! i, xuk ! i ! t ! 2] else xuk ! i ! t')"
proof -
  have a: "shaped3 n m 3 (store_step xuk t 0 x1)" using assms by (simp add: shaped3_store_step)
  have l0: "length xuk = n" using assms(1) by (rule shaped3_length)
  have l1: "length (xuk ! i) = m" using assms(1,4) by (rule shaped3_nth)
  have l2: "length (store_step xuk t 0 x1 ! i) = m" using a assms(4) by (rule shaped3_nth)
  show ?thesis
  proof (cases "t' = t")
    case True
    have c3: "length (xuk ! i ! t) = 3" using assms(1,4,5) True by (simp add: shaped3_nth_nth)
    show ?thesis
      using True assms l0 l1 l2 cell3_update [OF c3, of "x1 ! i" "x2 ! i"]
      by (simp add: nth_nth_store_step)
  next
    case False
    then show ?thesis using assms l0 l1 l2 by (simp add: nth_nth_store_step)
  qed
qed

lemma euler_body_rec:
  assumes u: "shaped2 n m u" and t: "t < m" and s: "osc_rec n m u s"
  shows "\<exists>s'. euler_body mu dt dl u t s = Inr s' \<and> osc_rec n m u s'"
proof -
  obtain x1 x2 xuk where eq: "s = (x1, x2, xuk)" by (cases s)
  have f: "length x1 = n" "length x2 = n" "shaped3 n m 3 xuk" "\<forall>i<n. \<forall>t<m. xuk ! i ! t ! 2 = u ! i ! t"
    using s unfolding eq osc_rec_iff by simp_all
  have len: "length u = n" using u by (rule shaped2_length)
  have "\<forall>i<n. \<forall>t'<m. store_step (store_step xuk t 0 x1) t 1 x2 ! i ! t' ! 2 = u ! i ! t'"
  proof (intro allI impI)
    fix i t' assume "i < n" "t' < m"
    then show "store_step (store_step xuk t 0 x1) t 1 x2 ! i ! t' ! 2 = u ! i ! t'"
      using store_two_nth [OF f(3) f(1) f(2), of i t' t] f(4) by simp
  qed
  then have "osc_rec n m u
      (vadd x1 (vadd (scale (dt * mu) x1) (scale dt (map (\<lambda>row. row ! (if t = 0 then m - 1 else t - 1)) u))),
       vadd x2 (scale dl (vsub x2 (vsquare x1))),
       store_step (store_step xuk t 0 x1) t 1 x2)"
    unfolding osc_rec_iff using f len by (simp add: shaped3_store_step)
  then show ?thesis
    unfolding eq euler_body_eq [OF u t] by blast
qed

lemma oscillator_init_rec:
  assumes "length r1 = nat numICs" and "length r2 = nat numICs" and "shaped2 (nat numICs) (nat T) u"
  shows "osc_rec (nat numICs) (nat T) u (oscillator_init x1range x2range numICs T r1 r2 u)"
proof -
  have z: "shaped3 (nat numICs) (nat T) 3 (torch_zeros3 (nat numICs) (nat T) 3)"
    by (rule shaped3_zeros)
  have "\<forall>i<nat numICs. \<forall>t<nat T.
          store_last (torch_zeros3 (nat numICs) (nat T) 3) 2 u ! i ! t ! 2 = u ! i ! t"
    using assms(3) shaped3_nth [OF z] shaped3_nth_nth [OF z] shaped3_length [OF z]
    by (simp add: nth_store_last shaped2_length shaped2_nth)
  then show ?thesis
    unfolding oscillator_init_def Let_def osc_rec_iff
    using assms z by (simp add: shaped3_store_last)
qed

lemma oscillator_prefix_ok:
  assumes "length r1 = nat numICs" and "length r2 = nat numICs" and u: "shaped2 (nat numICs) (nat T) u"
    and "k \<le> nat T"
  shows "\<exists>s. oscillator_prefix x1range x2range numICs mu lam T dt r1 r2 u k = Inr s
            \<and> osc_rec (nat numICs) (nat T) u s"
  unfolding oscillator_prefix_def
proof (rule for_loop_total)
  show "osc_rec (nat numICs) (nat T) u (oscillator_init x1range x2range numICs T r1 r2 u)"
    using assms(1-3) by (rule oscillator_init_rec)
next
  fix t a
  assume "t \<in> set [0..<k]" and "osc_rec (nat numICs) (nat T) u a"
  then show "\<exists>b. euler_body mu dt (dt * lam) u t a = Inr b \<and> osc_rec (nat numICs) (nat T) u b"
    using assms(4) euler_body_rec [OF u, of t a] by simp
qed

lemma oscillator_prefix_Suc:
  "oscillator_prefix x1range x2range numICs mu lam T dt r1 r2 u (Suc k) =
     (case oscillator_prefix x1range x2range numICs mu lam T dt r1 r2 u k of
        Inl e \<Rightarrow> Inl e
      | Inr s \<Rightarrow> euler_body mu dt (dt * lam) u k s)"
  by (simp add: oscillator_prefix_def for_loop_append split: sum.splits)

lemma oscillator_prefix_split:
  assumes "k \<le> m"
  shows "oscillator_prefix x1range x2range numICs mu lam T dt r1 r2 u m =
     (case oscillator_prefix x1range x2range numICs mu lam T dt r1 r2 u k of
        Inl e \<Rightarrow> Inl e
      | Inr s \<Rightarrow> for_loop (euler_body mu dt (dt * lam) u) [k..<m] s)"
proof -
  have "[0..<m] = [0..<k] @ [k..<m]" using assms upt_add_eq_append [of 0 k "m - k"] by simp
  then show ?thesis by (simp add: oscillator_prefix_def for_loop_append)
qed

lemma euler_loop_frame:
  assumes u: "shaped2 n m u" and run: "for_loop (euler_body mu dt dl u) ts s = Inr s'"
    and s: "osc_rec n m u s" and ts: "\<forall>t'\<in>set ts. t' < m \<and> t' \<noteq> t" and i: "i < n" and t: "t < m"
  shows "snd (snd s') ! i ! t = snd (snd s) ! i ! t"
proof -
  let ?I = "\<lambda>a. osc_rec n m u a \<and> snd (snd a) ! i ! t = snd (snd s) ! i ! t"
  have "?I s'"
  proof (rule for_loop_invariant [OF run, of ?I])
    show "?I s" using s by simp
  next
    fix t' a b
    assume t': "t' \<in> set ts" and a: "?I a" and step: "euler_body mu dt dl u t' a = Inr b"
    obtain x1 x2 xuk where eq: "a = (x1, x2, xuk)" by (cases a)
    have f: "length x1 = n" "length x2 = n" "shaped3 n m 3 xuk"
      using a unfolding eq osc_rec_iff by simp_all
    have lt: "t' < m" and ne: "t \<noteq> t'" using ts t' by auto
    have b: "b = (vadd x1 (vadd (scale (dt * mu) x1) (scale dt (map (\<lambda>row. row ! (if t' = 0 then m - 1 else t' - 1)) u))),
         vadd x2 (scale dl (vsub x2 (vsquare x1))),
         store_step (store_step xuk t' 0 x1) t' 1 x2)"
      using step unfolding eq euler_body_eq [OF u lt] by simp
    have "osc_rec n m u b" using euler_body_rec [OF u lt, of a mu dt dl] a step by auto
    moreover have "snd (snd b) ! i ! t = snd (snd a) ! i ! t"
      unfolding b eq using store_two_nth [OF f(3) f(1) f(2) i t, of t'] ne by simp
    ultimately show "?I b" using a by simp
  qed
  then show ?thesis by simp
qed

lemma oscillator_recorded:
  assumes r1: "length r1 = nat numICs" and r2: "length r2 = nat numICs"
    and u: "shaped2 (nat numICs) (nat T) u"
    and t: "t < nat T" and i: "i < nat numICs"
    and pre: "oscillator_prefix x1range x2range numICs mu lam T dt r1 r2 u t = Inr (x1, x2, b)"
    and fin: "oscillator_prefix x1range x2range numICs mu lam T dt r1 r2 u k = Inr (x1e, x2e, xuk)"
    and k: "t < k" "k \<le> nat T"
  shows "xuk ! i ! t = [x1 ! i, x2 ! i, u ! i ! t]"
proof -
  let ?body = "euler_body mu dt (dt * lam) u"
  have inv: "osc_rec (nat numICs) (nat T) u (x1, x2, b)"
    using oscillator_prefix_ok [OF r1 r2 u, of t x1range x2range mu lam dt] t pre by simp
  have f: "length x1 = nat numICs" "length x2 = nat numICs" "shaped3 (nat numICs) (nat T) 3 b"
      "\<forall>i<nat numICs. \<forall>t<nat T. b ! i ! t ! 2 = u ! i ! t"
    using inv unfolding osc_rec_iff by simp_all
  obtain s1 where s1: "?body t (x1, x2, b) = Inr s1" and s1_inv: "osc_rec (nat numICs) (nat T) u s1"
    using euler_body_rec [OF u t inv] by blast
  have s1_eq: "snd (snd s1) = store_step (store_step b t 0 x1) t 1 x2"
    using s1 unfolding euler_body_eq [OF u t] by auto
  have "[t..<k] = t # [Suc t..<k]" using k by (simp add: upt_conv_Cons)
  then have "for_loop ?body [Suc t..<k] s1 = Inr (x1e, x2e, xuk)"
    using fin pre s1 oscillator_prefix_split [of t k x1range x2range numICs mu lam T dt r1 r2 u] k
    by simp
  then have "snd (snd (x1e, x2e, xuk)) ! i ! t = snd (snd s1) ! i ! t"
    using k by (intro euler_loop_frame [OF u _ s1_inv _ i t]) auto
  then show ?thesis
    using s1_eq store_two_nth [OF f(3) f(1) f(2) i t, of t] f(4) i t by simp
qed

lemma oscillator_steps:
  assumes r1: "length r1 = nat numICs" and r2: "length r2 = nat numICs"
    and u: "shaped2 (nat numICs) (nat T) u"
    and t: "t < nat T" and i: "i < nat numICs"
  shows "\<exists>x1 x2 b x1' x2' b' x1e x2e xuk.
     oscillator_prefix x1range x2range numICs mu lam T dt r1 r2 u t = Inr (x1, x2, b)
   \<and> oscillator_prefix x1range x2range numICs mu lam T dt r1 r2 u (Suc t) = Inr (x1', x2', b')
   \<and> oscillator x1range x2range numICs mu lam T dt r1 r2 u = Inr (x1e, x2e, xuk)
   \<and> xuk ! i ! t = [x1 ! i, x2 ! i, u ! i ! t]
   \<and> x1' ! i = x1 ! i + (dt * mu * x1 ! i + dt * u ! i ! (if t = 0 then nat T - 1 else t - 1))
   \<and> x2' ! i = x2 ! i + dt * lam * (x2 ! i - (x1 ! i)\<^sup>2)
   \<and> (if Suc t < nat T then xuk ! i ! Suc t = [x1' ! i, x2' ! i, u ! i ! Suc t]
       else x1e = x1' \<and> x2e = x2')"
proof -
  let ?pre = "oscillator_prefix x1range x2range numICs mu lam T dt r1 r2 u"
  obtain s where s: "?pre t = Inr s" and s_inv: "osc_rec (nat numICs) (nat T) u s"
    using oscillator_prefix_ok [OF r1 r2 u, of t x1range x2range mu lam dt] t by auto
  obtain s' where s': "?pre (Suc t) = Inr s'"
    using oscillator_prefix_ok [OF r1 r2 u, of "Suc t" x1range x2range mu lam dt] t by auto
  obtain se where se: "?pre (nat T) = Inr se"
    using oscillator_prefix_ok [OF r1 r2 u, of "nat T" x1range x2range mu lam dt] by auto
  obtain x1 x2 b where eq: "s = (x1, x2, b)" by (cases s)
  obtain x1' x2' b' where eq': "s' = (x1', x2', b')" by (cases s')
  obtain x1e x2e xuk where eqe: "se = (x1e, x2e, xuk)" by (cases se)
  have f: "length x1 = nat numICs" "length x2 = nat numICs"
    using s_inv unfolding eq osc_rec_iff by simp_all
  have lu: "length u = nat numICs" using u by (rule shaped2_length)
  have lui: "length (u ! i) = nat T" using u i by (rule shaped2_nth)
  have rec: "xuk ! i ! t = [x1 ! i, x2 ! i, u ! i ! t]"
    using oscillator_recorded [OF r1 r2 u t i s [unfolded eq] se [unfolded eqe]] t by simp
  have step: "euler_body mu dt (dt * lam) u t (x1, x2, b) = Inr (x1', x2', b')"
    using s s' unfolding eq eq' oscillator_prefix_Suc by simp
  have x1': "x1' = vadd x1 (vadd (scale (dt * mu) x1)
                (scale dt (map (\<lambda>row. row ! (if t = 0 then nat T - 1 else t - 1)) u)))"
    and x2': "x2' = vadd x2 (scale (dt * lam) (vsub x2 (vsquare x1)))"
    using step unfolding euler_body_eq [OF u t] by simp_all
  have inc1: "x1' ! i = x1 ! i + (dt * mu * x1 ! i + dt * u ! i ! (if t = 0 then nat T - 1 else t - 1))"
    unfolding x1' using f lu i by simp
  have inc2: "x2' ! i = x2 ! i + dt * lam * (x2 ! i - (x1 ! i)\<^sup>2)"
    unfolding x2' using f i by simp
  have last: "if Suc t < nat T then xuk ! i ! Suc t = [x1' ! i, x2' ! i, u ! i ! Suc t]
       else x1e = x1' \<and> x2e = x2'"
  proof (cases "Suc t < nat T")
    case True
    then show ?thesis
      using oscillator_recorded [OF r1 r2 u True i s' [unfolded eq'] se [unfolded eqe]] by simp
  next
    case False
    then have "Suc t = nat T" using t by simp
    then show ?thesis using s' se False unfolding eq' eqe by simp
  qed
  show ?thesis
    using s s' se rec inc1 inc2 last unfolding eq eq' eqe oscillator_prefix_full by blast
qed

lemma fill_rows: "list_all (\<lambda>row. length row = m) (fst (fill (fill nxt m) n g))"
  by (rule fill_list_all) simp

lemma shaped2_fill: "shaped2 n m (fst (fill (fill nxt m) n g))"
  by (simp add: shaped2_def fill_rows)

lemma oscillator_draws_shape:
  assumes "oscillator_draws P numICs T seed = (r1, r2, r3, g)"
  shows "length r1 = nat numICs" and "length r2 = nat numICs" and "shaped2 (nat numICs) (nat T) r3"
proof -
  obtain a g1 where a: "fill (uniform P) (nat numICs) (seeded P seed) = (a, g1)" by (cases "fill (uniform P) (nat numICs) (seeded P seed)")
  obtain b g2 where b: "fill (uniform P) (nat numICs) g1 = (b, g2)" by (cases "fill (uniform P) (nat numICs) g1")
  obtain c g3 where c: "fill (fill (uniform P) (nat T)) (nat numICs) g2 = (c, g3)"
    by (cases "fill (fill (uniform P) (nat T)) (nat numICs) g2")
  have eq: "r1 = a" "r2 = b" "r3 = c" using assms a b c by (simp_all add: oscillator_draws_def)
  show "length r1 = nat numICs" using fill_length [of "uniform P" "nat numICs" "seeded P seed"] a eq by simp
  show "length r2 = nat numICs" using fill_length [of "uniform P" "nat numICs" g1] b eq by simp
  show "shaped2 (nat numICs) (nat T) r3"
    using shaped2_fill [of "nat numICs" "nat T" "uniform P" g2] c eq by simp
qed

lemma shaped2_map: "shaped2 n m u \<Longrightarrow> shaped2 n m (map (map f) u)"
  by (simp add: shaped2_def list_all_iff)

lemma generate_data_ok:
  assumes "seed_ok seed" and "0 \<le> numICs" and "0 \<le> T"
    and "oscillator_draws P numICs T seed = (r1, r2, r3, g)"
  shows "generate_data P x1range x2range numICs mu lam T dt seed w =
     (case oscillator x1range x2range numICs mu lam T dt r1 r2 (map (map (\<lambda>r. r - 0.5)) r3) of
        Inl e \<Rightarrow> (Inl e, w\<lparr>generator := g\<rparr>)
      | Inr (x1, x2, xuk) \<Rightarrow> (Inr xuk, w\<lparr>generator := g\<rparr>))"
  using assms
  by (simp add: generate_data_def manual_seed_def torch_rand_def torch_rand2_def seed_ok_def
      oscillator_draws_def split: prod.splits)

lemma generate_data_unforced_ok:
  assumes "seed_ok seed" and "0 \<le> numICs" and "0 \<le> T"
    and "oscillator_draws P numICs T seed = (r1, r2, r3, g)"
  shows "generate_data_unforced P x1range x2range numICs mu lam T dt seed w =
     (case oscillator x1range x2range numICs mu lam T dt r1 r2 (map (map (\<lambda>r. r * 0)) r3) of
        Inl e \<Rightarrow> (Inl e, w\<lparr>generator := g\<rparr>)
      | Inr (x1, x2, xuk) \<Rightarrow> (Inr xuk, w\<lparr>generator := g\<rparr>))"
  using assms
  by (simp add: generate_data_unforced_def manual_seed_def torch_rand_def torch_rand2_def seed_ok_def
      oscillator_draws_def split: prod.splits)

lemma generate_data_Inr:
  assumes "fst (generate_data P x1range x2range numICs mu lam T dt seed w) = Inr xuk"
  shows "seed_ok seed \<and> 0 \<le> numICs \<and> 0 \<le> T"
  using assms
  by (auto simp: generate_data_def manual_seed_def torch_rand_def torch_rand2_def seed_ok_def
      split: prod.splits if_splits sum.splits)

lemma generate_data_unforced_Inr:
  assumes "fst (generate_data_unforced P x1range x2range numICs mu lam T dt seed w) = Inr xuk"
  shows "seed_ok seed \<and> 0 \<le> numICs \<and> 0 \<le> T"
  using assms
  by (auto simp: generate_data_unforced_def manual_seed_def torch_rand_def torch_rand2_def seed_ok_def
      split: prod.splits if_splits sum.splits)

lemma generate_data_deterministic:
  "fst (generate_data P x1range x2range numICs mu lam T dt seed w) =
   fst (generate_data P x1range x2range numICs mu lam T dt seed w')"
  by (auto simp: generate_data_def manual_seed_def torch_rand_def torch_rand2_def
      split: prod.splits if_splits sum.splits)

lemma generate_data_run:
  assumes ok: "seed_ok seed" "0 \<le> numICs" "0 \<le> T"
    and d: "oscillator_draws P numICs T seed = (r1, r2, r3, g)"
  shows "\<exists>x1e x2e xuk.
      oscillator x1range x2range numICs mu lam T dt r1 r2 (map (map (\<lambda>r. r - 0.5)) r3) = Inr (x1e, x2e, xuk)
    \<and> generate_data P x1range x2range numICs mu lam T dt seed w = (Inr xuk, w\<lparr>generator := g\<rparr>)
    \<and> osc_rec (nat numICs) (nat T) (map (map (\<lambda>r. r - 0.5)) r3) (x1e, x2e, xuk)"
proof -
  let ?u = "map (map (\<lambda>r. r - 0.5)) r3"
  have u: "shaped2 (nat numICs) (nat T) ?u"
    using oscillator_draws_shape(3) [OF d] by (rule shaped2_map)
  obtain s where s: "oscillator x1range x2range numICs mu lam T dt r1 r2 ?u = Inr s"
    and inv: "osc_rec (nat numICs) (nat T) ?u s"
    using oscillator_prefix_ok [OF oscillator_draws_shape(1,2) [OF d] u, of "nat T" x1range x2range mu lam dt]
    unfolding oscillator_prefix_full by auto
  obtain x1e x2e xuk where eq: "s = (x1e, x2e, xuk)" by (cases s)
  show ?thesis
    using s inv generate_data_ok [OF ok d, of x1range x2range mu lam dt w] unfolding eq by simp
qed

lemma generate_data_unforced_run:
  assumes ok: "seed_ok seed" "0 \<le> numICs" "0 \<le> T"
    and d: "oscillator_draws P numICs T seed = (r1, r2, r3, g)"
  shows "\<exists>x1e x2e xuk.
      oscillator x1range x2range numICs mu lam T dt r1 r2 (map (map (\<lambda>r. r * 0)) r3) = Inr (x1e, x2e, xuk)
    \<and> generate_data_unforced P x1range x2range numICs mu lam T dt seed w = (Inr xuk, w\<lparr>generator := g\<rparr>)
    \<and> osc_rec (nat numICs) (nat T) (map (map (\<lambda>r. r * 0)) r3) (x1e, x2e, xuk)"
proof -
  let ?u = "map (map (\<lambda>r. r * 0)) r3"
  have u: "shaped2 (nat numICs) (nat T) ?u"
    using oscillator_draws_shape(3) [OF d] by (rule shaped2_map)
  obtain s where s: "oscillator x1range x2range numICs mu lam T dt r1 r2 ?u = Inr s"
    and inv: "osc_rec (nat numICs) (nat T) ?u s"
    using oscillator_prefix_ok [OF oscillator_draws_shape(1,2) [OF d] u, of "nat T" x1range x2range mu lam dt]
    unfolding oscillator_prefix_full by auto
  obtain x1e x2e xuk where eq: "s = (x1e, x2e, xuk)" by (cases s)
  show ?thesis
    using s inv generate_data_unforced_ok [OF ok d, of x1range x2range mu lam dt w] unfolding eq by simp
qed

lemma fill_numeral: "fill nxt (numeral k) g =
     (case nxt g of (x, g') \<Rightarrow> (case fill nxt (pred_numeral k) g' of (xs, g'') \<Rightarrow> (x # xs, g'')))"
  by (simp add: numeral_eq_Suc)

lemma fill_1: "fill nxt 1 g = (case nxt g of (x, g') \<Rightarrow> ([x], g'))"
  by (simp split: prod.splits)

lemma cycle_draws_2_3:
  "oscillator_draws cycle_torch 2 3 0 =
     ([0, 1 / 4], [1 / 2, 3 / 4], [[0, 1 / 4, 1 / 2], [3 / 4, 0, 1 / 4]], 10)"
  by (simp add: oscillator_draws_def cycle_torch_def fill_numeral fill_1)

lemma upt_0_3: "[0..<3] = [0, 1, 2]" by code_simp

lemmas tensor_eval = column_def store_step_def store_last_def torch_zeros3_def
     scale_def shift_def vadd_def vsub_def vsquare_def euler_body_def

lemma cycle_unforced_loop: "oscillator (0,1) (0,1) 2 1 1 3 (1/10) [0,1/4] [1/2,3/4] [[0,0,0],[0,0,0]] =
  Inr ([0, 1331/4000], [1331/2000, 1557149 / 1600000], [[[0, 1 / 2, 0], [0, 11 / 20, 0], [0, 121 / 200, 0]],
      [[1 / 4, 3 / 4, 0], [11 / 40, 131 / 160, 0], [121 / 400, 14289 / 16000, 0]]])"
  apply (simp add: oscillator_def oscillator_init_def upt_0_3 scale_to_range_unit)
  apply (simp add: tensor_eval)
  apply (simp add: power2_eq_square eval_nat_numeral)
  done

lemma cycle_unforced_run: "fst (generate_data_unforced cycle_torch (0,1) (0,1) 2 1 1 3 (1/10) 0 world0) = 
  Inr [[[0, 1 / 2, 0], [0, 11 / 20, 0], [0, 121 / 200, 0]],
      [[1 / 4, 3 / 4, 0], [11 / 40, 131 / 160, 0], [121 / 400, 14289 / 16000, 0]]]"
  using generate_data_unforced_ok [OF _ _ _ cycle_draws_2_3, of "(0,1)" "(0,1)" 1 1 "1/10" world0] cycle_unforced_loop
  by (simp add: seed_ok_def)



lemma generate_data_returns:
  assumes ok: "seed_ok seed" "0 \<le> numICs" "0 \<le> T"
  shows "\<exists>xuk. fst (generate_data P x1range x2range numICs mu lam T dt seed w) = Inr xuk
            \<and> shaped3 (nat numICs) (nat T) 3 xuk"
proof -
  obtain r1 r2 r3 g where d: "oscillator_draws P numICs T seed = (r1, r2, r3, g)"
    by (cases "oscillator_draws P numICs T seed")
  show ?thesis
    using generate_data_run [OF ok d, of x1range x2range mu lam dt w]
    by (auto simp: osc_rec_iff)
qed

lemma upt_0_5: "[0..<5] = [0, 1, 2, 3, 4]" by code_simp

lemma fill_7:
  assumes "fill nxt 7 g0 = ([a, b, c0, c1, c2, c3, c4], g)"
  shows "\<exists>g1 g2 g3 g4 g5 g6. nxt g0 = (a, g1) \<and> nxt g1 = (b, g2) \<and> nxt g2 = (c0, g3)
      \<and> nxt g3 = (c1, g4) \<and> nxt g4 = (c2, g5) \<and> nxt g5 = (c3, g6) \<and> nxt g6 = (c4, g)"
  using assms by (auto simp: fill_numeral fill_1 split: prod.splits)

lemma zero_range_run:
  assumes "fill (uniform P) 7 (seeded P 0) = ([a, b, c0, c1, c2, c3, c4], g)"
  shows "generate_data P (0, 0) (0, 0) 1 0 0 5 (1 / 10) 0 w =
      (Inr [[[0, 0, c0 - 1 / 2],
             [(c4 - 1 / 2) / 10, 0, c1 - 1 / 2],
             [(c4 - 1 / 2) / 10 + (c0 - 1 / 2) / 10, 0, c2 - 1 / 2],
             [(c4 - 1 / 2) / 10 + (c0 - 1 / 2) / 10 + (c1 - 1 / 2) / 10, 0, c3 - 1 / 2],
             [(c4 - 1 / 2) / 10 + (c0 - 1 / 2) / 10 + (c1 - 1 / 2) / 10 + (c2 - 1 / 2) / 10, 0,
              c4 - 1 / 2]]],
       w\<lparr>generator := g\<rparr>)"
proof -
  obtain g1 g2 g3 g4 g5 g6 where n: "uniform P (seeded P 0) = (a, g1)" "uniform P g1 = (b, g2)"
     "uniform P g2 = (c0, g3)" "uniform P g3 = (c1, g4)" "uniform P g4 = (c2, g5)"
     "uniform P g5 = (c3, g6)" "uniform P g6 = (c4, g)"
    using fill_7 [OF assms] by blast
  have d: "oscillator_draws P 1 5 0 = ([a], [b], [[c0, c1, c2, c3, c4]], g)"
    using n by (simp add: oscillator_draws_def fill_numeral fill_1)
  have o: "oscillator (0, 0) (0, 0) 1 0 0 5 (1 / 10) [a] [b]
             (map (map (\<lambda>r. r - 0.5)) [[c0, c1, c2, c3, c4]]) =
      Inr ([(c4 - 1 / 2) / 10 + (c0 - 1 / 2) / 10 + (c1 - 1 / 2) / 10 + (c2 - 1 / 2) / 10 + (c3 - 1 / 2) / 10], [0],
       [[[0, 0, c0 - 1 / 2],
             [(c4 - 1 / 2) / 10, 0, c1 - 1 / 2],
             [(c4 - 1 / 2) / 10 + (c0 - 1 / 2) / 10, 0, c2 - 1 / 2],
             [(c4 - 1 / 2) / 10 + (c0 - 1 / 2) / 10 + (c1 - 1 / 2) / 10, 0, c3 - 1 / 2],
             [(c4 - 1 / 2) / 10 + (c0 - 1 / 2) / 10 + (c1 - 1 / 2) / 10 + (c2 - 1 / 2) / 10, 0,
              c4 - 1 / 2]]])"
    apply (simp add: oscillator_def oscillator_init_def upt_0_5 scale_to_range_zero)
    apply (simp add: tensor_eval)
    apply (simp add: power2_eq_square eval_nat_numeral)
    done
  show ?thesis
    using generate_data_ok [OF _ _ _ d, of "(0, 0)" "(0, 0)" 0 0 "1 / 10" w] o
    by (simp add: seed_ok_def)
qed

lemma torch_seed0_draws:
  "fill (uniform torch_seed0) 7 (seeded torch_seed0 0) =
     ([4963 / 10000, 7682 / 10000, 885 / 10000, 1320 / 10000, 3074 / 10000, 6341 / 10000, 4901 / 10000], 7)"
  by (simp add: torch_seed0_def fill_numeral fill_1)

lemma torch_seed0_range: "0 \<le> fst (uniform torch_seed0 s) \<and> fst (uniform torch_seed0 s) < 1"
proof -
  let ?tbl = "[4963, 7682, 885, 1320, 3074, 6341, 4901, 8964, 4556, 6323] :: nat list"
  have "s mod 10 < length ?tbl" by simp
  then have "?tbl ! (s mod 10) \<in> set ?tbl" by (rule nth_mem)
  then have "?tbl ! (s mod 10) < 10000" by auto
  then show ?thesis by (simp add: torch_seed0_def)
qed

lemma cycle_forced_run:
  "fst (generate_data cycle_torch (0, 1) (0, 1) 2 1 1 3 (1 / 10) 0 world0) =
     Inr [[[0, 1 / 2, - (1 / 2)], [0, 11 / 20, - (1 / 4)], [- (1 / 20), 121 / 200, 0]],
          [[1 / 4, 3 / 4, 1 / 4], [1 / 4, 131 / 160, - (1 / 2)], [3 / 10, 1431 / 1600, - (1 / 4)]]]"
proof -
  have "\<exists>x1 x2. oscillator (0, 1) (0, 1) 2 1 1 3 (1 / 10) [0, 1 / 4] [1 / 2, 3 / 4]
          (map (map (\<lambda>r. r - 0.5)) [[0, 1 / 4, 1 / 2], [3 / 4, 0, 1 / 4]]) =
     Inr (x1, x2, [[[0, 1 / 2, - (1 / 2)], [0, 11 / 20, - (1 / 4)], [- (1 / 20), 121 / 200, 0]],
          [[1 / 4, 3 / 4, 1 / 4], [1 / 4, 131 / 160, - (1 / 2)], [3 / 10, 1431 / 1600, - (1 / 4)]]])"
    apply (simp add: oscillator_def oscillator_init_def upt_0_3 scale_to_range_unit)
    apply (simp add: tensor_eval)
    apply (simp add: power2_eq_square eval_nat_numeral)
    done
  then show ?thesis
    using generate_data_ok [OF _ _ _ cycle_draws_2_3, of "(0, 1)" "(0, 1)" 1 1 "1 / 10" world0]
    by (auto simp: seed_ok_def)
qed

section \<open>Properties of the two-link loop\<close>

lemma generate_two_link_data_ok:
  assumes "seed_ok seed" and "0 \<le> numICs" and "0 \<le> T"
    and "two_link_draws P numICs T seed = (r1, r2, r3, r4, r5, gen)"
  shows "generate_two_link_data P q1_range q2_range dq1_range dq2_range numICs T dt seed
       tau_max m1 m2 l1 l2 g w =
     (case two_link_prefix q1_range q2_range dq1_range dq2_range numICs T dt m1 m2 l1 l2 g
             r1 r2 r3 r4 (map (map (map (\<lambda>r. (r - 0.5) * 2 * tau_max))) r5) (nat T) of
        Inl e \<Rightarrow> (Inl e, w\<lparr>generator := gen, stdout := stdout w @ [inertia_line m1 m2 l1 l2]\<rparr>)
      | Inr (q1, q2, dq1, dq2, data) \<Rightarrow>
          (Inr data, w\<lparr>generator := gen, stdout := stdout w @ [inertia_line m1 m2 l1 l2]\<rparr>))"
  using assms
  by (simp add: generate_two_link_data_def manual_seed_def torch_rand_def torch_rand3_def seed_ok_def
      two_link_draws_def two_link_prefix_def inertia_line_def print_line_def Let_def
      split: prod.splits sum.splits)

lemma generate_two_link_data_Inr:
  assumes "fst (generate_two_link_data P q1_range q2_range dq1_range dq2_range numICs T dt seed
       tau_max m1 m2 l1 l2 g w) = Inr data"
  shows "seed_ok seed \<and> 0 \<le> numICs \<and> 0 \<le> T"
  using assms
  by (auto simp: generate_two_link_data_def manual_seed_def torch_rand_def torch_rand3_def seed_ok_def
      Let_def split: prod.splits if_splits sum.splits)

lemma generate_two_link_data_deterministic:
  "fst (generate_two_link_data P q1_range q2_range dq1_range dq2_range numICs T dt seed
       tau_max m1 m2 l1 l2 g w) =
   fst (generate_two_link_data P q1_range q2_range dq1_range dq2_range numICs T dt seed
       tau_max m1 m2 l1 l2 g w')"
  by (auto simp: generate_two_link_data_def manual_seed_def torch_rand_def torch_rand3_def
      print_line_def Let_def split: prod.splits if_splits sum.splits)

lemma generate_data_unforced_deterministic:
  "fst (generate_data_unforced P x1range x2range numICs mu lam T dt seed w) =
   fst (generate_data_unforced P x1range x2range numICs mu lam T dt seed w')"
  by (auto simp: generate_data_unforced_def manual_seed_def torch_rand_def torch_rand2_def
      split: prod.splits if_splits sum.splits)

lemma generate_data_stdout:
  "stdout (snd (generate_data P x1range x2range numICs mu lam T dt seed w)) = stdout w"
  by (auto simp: generate_data_def manual_seed_def torch_rand_def torch_rand2_def
      split: prod.splits if_splits sum.splits)

lemma generate_data_unforced_stdout:
  "stdout (snd (generate_data_unforced P x1range x2range numICs mu lam T dt seed w)) = stdout w"
  by (auto simp: generate_data_unforced_def manual_seed_def torch_rand_def torch_rand2_def
      split: prod.splits if_splits sum.splits)

lemma generate_two_link_data_stdout:
  "stdout (snd (generate_two_link_data P q1_range q2_range dq1_range dq2_range numICs T dt seed
       tau_max m1 m2 l1 l2 g w)) =
   (if seed_ok seed then stdout w @ [inertia_line m1 m2 l1 l2] else stdout w)"
  by (auto simp: generate_two_link_data_def manual_seed_def torch_rand_def torch_rand3_def
      print_line_def Let_def seed_ok_def inertia_line_def split: prod.splits if_splits sum.splits)

lemma generate_data_generator:
  "seed_ok seed \<Longrightarrow>
   generator (snd (generate_data P x1range x2range numICs mu lam T dt seed w)) =
   generator (snd (generate_data P x1range x2range numICs mu lam T dt seed w'))"
  by (auto simp: generate_data_def manual_seed_def torch_rand_def torch_rand2_def seed_ok_def
      split: prod.splits if_splits sum.splits)

lemma generate_data_unforced_generator:
  "seed_ok seed \<Longrightarrow>
   generator (snd (generate_data_unforced P x1range x2range numICs mu lam T dt seed w)) =
   generator (snd (generate_data_unforced P x1range x2range numICs mu lam T dt seed w'))"
  by (auto simp: generate_data_unforced_def manual_seed_def torch_rand_def torch_rand2_def seed_ok_def
      split: prod.splits if_splits sum.splits)

lemma generate_two_link_data_generator:
  "seed_ok seed \<Longrightarrow>
   generator (snd (generate_two_link_data P q1_range q2_range dq1_range dq2_range numICs T dt seed
       tau_max m1 m2 l1 l2 g w)) =
   generator (snd (generate_two_link_data P q1_range q2_range dq1_range dq2_range numICs T dt seed
       tau_max m1 m2 l1 l2 g w'))"
  by (auto simp: generate_two_link_data_def manual_seed_def torch_rand_def torch_rand3_def
      print_line_def Let_def seed_ok_def split: prod.splits if_splits sum.splits)

lemma format_quarter: "format_4f (1 / 4) = ''0.2500''"
  by code_simp

lemma arm_inv_iff:
  "arm_inv n m tau (q1, q2, dq1, dq2, data) \<longleftrightarrow>
     length q1 = n \<and> length q2 = n \<and> length dq1 = n \<and> length dq2 = n \<and> shaped3 n m 6 data
   \<and> (\<forall>i<n. \<forall>t<m. data ! i ! t ! 4 = tau ! i ! t ! 0 \<and> data ! i ! t ! 5 = tau ! i ! t ! 1)"
  by (auto simp: arm_inv_def list_all_iff)

lemma length_scaled [simp]: "length (scaled v c) = length v" by (simp add: scaled_def)

lemma length_sadd [simp]: "length (sadd c v) = length v" by (simp add: sadd_def)

lemma length_sdiv [simp]: "length (sdiv c v) = length v" by (simp add: sdiv_def)

lemma length_vcos [simp]: "length (vcos v) = length v" by (simp add: vcos_def)

lemma length_vsin [simp]: "length (vsin v) = length v" by (simp add: vsin_def)

lemma nth_scaled [simp]: "i < length v \<Longrightarrow> scaled v c ! i = v ! i * c" by (simp add: scaled_def)

lemma nth_sadd [simp]: "i < length v \<Longrightarrow> sadd c v ! i = c + v ! i" by (simp add: sadd_def)

lemma nth_sdiv [simp]: "i < length v \<Longrightarrow> sdiv c v ! i = c / v ! i" by (simp add: sdiv_def)

lemma nth_vcos [simp]: "i < length v \<Longrightarrow> vcos v ! i = cos (v ! i)" by (simp add: vcos_def)

lemma nth_vsin [simp]: "i < length v \<Longrightarrow> vsin v ! i = sin (v ! i)" by (simp add: vsin_def)

lemma cell6_update:
  "length c = 6 \<Longrightarrow> c[0 := a, Suc 0 := b, 2 := x, 3 := y] = [a, b, x, y, c ! 4, c ! 5]"
proof -
  assume "length c = 6"
  then obtain c0 c1 c2 c3 c4 c5 where "c = [c0, c1, c2, c3, c4, c5]"
    by (auto simp: length_Suc_conv eval_nat_numeral)
  then show ?thesis by (simp add: eval_nat_numeral)
qed

lemma store_four_nth:
  assumes d: "shaped3 n m 6 data" and l: "length q1 = n" "length q2 = n" "length dq1 = n" "length dq2 = n"
    and i: "i < n" and t': "t' < m"
  shows "store_step (store_step (store_step (store_step data t 0 q1) t 1 q2) t 2 dq1) t 3 dq2 ! i ! t' =
         (if t' = t then [q1 ! i, q2 ! i, dq1 ! i, dq2 ! i, data ! i ! t ! 4, data ! i ! t ! 5]
          else data ! i ! t')"
proof -
  let ?d1 = "store_step data t 0 q1"
  let ?d2 = "store_step ?d1 t 1 q2"
  let ?d3 = "store_step ?d2 t 2 dq1"
  have s1: "shaped3 n m 6 ?d1" using d l by (simp add: shaped3_store_step)
  have s2: "shaped3 n m 6 ?d2" using s1 l by (simp add: shaped3_store_step)
  have s3: "shaped3 n m 6 ?d3" using s2 l by (simp add: shaped3_store_step)
  note len = shaped3_length [OF d] shaped3_length [OF s1] shaped3_length [OF s2] shaped3_length [OF s3]
  note row = shaped3_nth [OF d i] shaped3_nth [OF s1 i] shaped3_nth [OF s2 i] shaped3_nth [OF s3 i]
  show ?thesis
  proof (cases "t' = t")
    case True
    have c6: "length (data ! i ! t) = 6" using d i t' True by (simp add: shaped3_nth_nth)
    show ?thesis
      using True l i t' len row cell6_update [OF c6, of "q1 ! i" "q2 ! i" "dq1 ! i" "dq2 ! i"]
      by (simp add: nth_nth_store_step)
  next
    case False
    then show ?thesis using l i t' len row by (simp add: nth_nth_store_step)
  qed
qed

lemma shaped3_store_four:
  assumes "shaped3 n m 6 data" and "length q1 = n" "length q2 = n" "length dq1 = n" "length dq2 = n"
  shows "shaped3 n m 6 (store_step (store_step (store_step (store_step data t 0 q1) t 1 q2) t 2 dq1) t 3 dq2)"
  using assms by (simp add: shaped3_store_step)

lemma two_link_body_step:
  assumes inv: "arm_inv n m tau (q1, q2, dq1, dq2, data)" and tau: "shaped3 n m 2 tau" and t: "t < m"
  shows "\<exists>q1' q2' dq1' dq2'.
      two_link_body m1 m2 l1 (l1 / 2) (l2 / 2) (m1 * (l1 / 2)\<^sup>2) (m2 * (l2 / 2)\<^sup>2) g dt tau t
        (q1, q2, dq1, dq2, data) =
      Inr (q1', q2', dq1', dq2',
           store_step (store_step (store_step (store_step data t 0 q1) t 1 q2) t 2 dq1) t 3 dq2)
    \<and> length q1' = n \<and> length q2' = n \<and> length dq1' = n \<and> length dq2' = n
    \<and> (\<forall>i<n. dq1' ! i = dq1 ! i + fst (two_link_accel m1 m2 l1 l2 g (q1 ! i) (q2 ! i) (dq1 ! i) (dq2 ! i)
                                      (tau ! i ! t ! 0) (tau ! i ! t ! 1)) * dt
            \<and> dq2' ! i = dq2 ! i + snd (two_link_accel m1 m2 l1 l2 g (q1 ! i) (q2 ! i) (dq1 ! i) (dq2 ! i)
                                      (tau ! i ! t ! 0) (tau ! i ! t ! 1)) * dt
            \<and> q1' ! i = q1 ! i + dq1' ! i * dt
            \<and> q2' ! i = q2 ! i + dq2' ! i * dt)"
proof -
  have l: "length q1 = n" "length q2 = n" "length dq1 = n" "length dq2 = n"
    using inv unfolding arm_inv_iff by simp_all
  have lt: "length tau = n" using tau by (rule shaped3_length)
  note lens = length_scale length_shift length_vadd length_vsub length_vmul length_vdiv length_vsquare
    length_vneg length_scaled length_sadd length_sdiv length_vcos length_vsin length_map min.idem l lt
  note nths = nth_scale nth_shift nth_vadd nth_vsub nth_vmul nth_vdiv nth_vsquare
    nth_vneg nth_scaled nth_sadd nth_sdiv nth_vcos nth_vsin nth_map
  show ?thesis
    unfolding two_link_body_def Let_def prod.case
    apply (intro exI conjI)
         apply (rule refl)
        apply (simp_all only: lens)
    apply (intro allI impI)
    apply (simp only: lens nths two_link_accel_def Let_def fst_conv snd_conv)
    done
qed

lemma length_store_from [simp]: "length (store_from data c tau) = min (length data) (length tau)"
  by (simp add: store_from_def)

lemma nth_store_from:
  "i < length data \<Longrightarrow> i < length tau \<Longrightarrow> t < length (data ! i) \<Longrightarrow> t < length (tau ! i) \<Longrightarrow>
   store_from data c tau ! i ! t = take c (data ! i ! t) @ tau ! i ! t"
  by (simp add: store_from_def)

lemma length_nth_store_from:
  "i < length data \<Longrightarrow> i < length tau \<Longrightarrow>
   length (store_from data c tau ! i) = min (length (data ! i)) (length (tau ! i))"
  by (simp add: store_from_def)

lemma two_link_init_inv:
  assumes r: "length r1 = nat numICs" "length r2 = nat numICs" "length r3 = nat numICs" "length r4 = nat numICs"
    and tau: "shaped3 (nat numICs) (nat T) 2 tau"
  shows "arm_inv (nat numICs) (nat T) tau
           (two_link_init q1_range q2_range dq1_range dq2_range numICs T r1 r2 r3 r4 tau)"
proof -
  let ?n = "nat numICs" and ?m = "nat T"
  let ?z = "torch_zeros3 ?n ?m 6"
  have z: "shaped3 ?n ?m 6 ?z" by (rule shaped3_zeros)
  have cell: "store_from ?z 4 tau ! i ! t = [0, 0, 0, 0] @ tau ! i ! t" if "i < ?n" "t < ?m" for i t
    using that shaped3_length [OF z] shaped3_length [OF tau] shaped3_nth [OF z] shaped3_nth [OF tau]
    by (simp add: nth_store_from) (simp add: torch_zeros3_def eval_nat_numeral)
  have sh: "shaped3 ?n ?m 6 (store_from ?z 4 tau)"
  proof (rule shaped3_I)
    show "length (store_from ?z 4 tau) = ?n"
      using shaped3_length [OF z] shaped3_length [OF tau] by simp
  next
    fix i assume "i < ?n"
    then show "length (store_from ?z 4 tau ! i) = ?m"
      using shaped3_length [OF z] shaped3_length [OF tau] shaped3_nth [OF z] shaped3_nth [OF tau]
      by (simp add: length_nth_store_from)
  next
    fix i t assume "i < ?n" "t < ?m"
    then show "length (store_from ?z 4 tau ! i ! t) = 6"
      using cell [of i t] shaped3_nth_nth [OF tau, of i t] by simp
  qed
  have "store_from ?z 4 tau ! i ! t ! 4 = tau ! i ! t ! 0 \<and> store_from ?z 4 tau ! i ! t ! 5 = tau ! i ! t ! 1"
    if "i < ?n" "t < ?m" for i t
    using cell [OF that] shaped3_nth_nth [OF tau that] by (simp add: nth_append eval_nat_numeral)
  then show ?thesis
    unfolding two_link_init_def Let_def arm_inv_iff using r sh by simp
qed

lemma two_link_body_inv:
  assumes tau: "shaped3 n m 2 tau" and t: "t < m" and inv: "arm_inv n m tau s"
  shows "\<exists>s'. two_link_body m1 m2 l1 (l1 / 2) (l2 / 2) (m1 * (l1 / 2)\<^sup>2) (m2 * (l2 / 2)\<^sup>2) g dt tau t s = Inr s'
            \<and> arm_inv n m tau s'"
proof -
  obtain q1 q2 dq1 dq2 data where eq: "s = (q1, q2, dq1, dq2, data)" by (cases s)
  have f: "length q1 = n" "length q2 = n" "length dq1 = n" "length dq2 = n" "shaped3 n m 6 data"
    "\<forall>i<n. \<forall>t<m. data ! i ! t ! 4 = tau ! i ! t ! 0 \<and> data ! i ! t ! 5 = tau ! i ! t ! 1"
    using inv unfolding eq arm_inv_iff by simp_all
  let ?d = "store_step (store_step (store_step (store_step data t 0 q1) t 1 q2) t 2 dq1) t 3 dq2"
  obtain q1' q2' dq1' dq2' where
    b: "two_link_body m1 m2 l1 (l1 / 2) (l2 / 2) (m1 * (l1 / 2)\<^sup>2) (m2 * (l2 / 2)\<^sup>2) g dt tau t
           (q1, q2, dq1, dq2, data) = Inr (q1', q2', dq1', dq2', ?d)"
    and l': "length q1' = n" "length q2' = n" "length dq1' = n" "length dq2' = n"
    using two_link_body_step [OF inv [unfolded eq] tau t, of m1 m2 l1 l2 g dt] by blast
  have sh: "shaped3 n m 6 ?d" using f by (intro shaped3_store_four)
  have "\<forall>i<n. \<forall>t'<m. ?d ! i ! t' ! 4 = tau ! i ! t' ! 0 \<and> ?d ! i ! t' ! 5 = tau ! i ! t' ! 1"
  proof (intro allI impI)
    fix i t' assume "i < n" "t' < m"
    then show "?d ! i ! t' ! 4 = tau ! i ! t' ! 0 \<and> ?d ! i ! t' ! 5 = tau ! i ! t' ! 1"
      using store_four_nth [OF f(5) f(1-4), of i t' t] f(6) by (simp add: eval_nat_numeral)
  qed
  then have "arm_inv n m tau (q1', q2', dq1', dq2', ?d)"
    unfolding arm_inv_iff using l' sh by simp
  then show ?thesis using b unfolding eq by blast
qed

lemma two_link_prefix_ok:
  assumes r: "length r1 = nat numICs" "length r2 = nat numICs" "length r3 = nat numICs" "length r4 = nat numICs"
    and tau: "shaped3 (nat numICs) (nat T) 2 tau" and k: "k \<le> nat T"
  shows "\<exists>s. two_link_prefix q1_range q2_range dq1_range dq2_range numICs T dt m1 m2 l1 l2 g
                r1 r2 r3 r4 tau k = Inr s
            \<and> arm_inv (nat numICs) (nat T) tau s"
  unfolding two_link_prefix_def
proof (rule for_loop_total)
  show "arm_inv (nat numICs) (nat T) tau
          (two_link_init q1_range q2_range dq1_range dq2_range numICs T r1 r2 r3 r4 tau)"
    using r tau by (rule two_link_init_inv)
next
  fix t a
  assume "t \<in> set [0..<k]" and "arm_inv (nat numICs) (nat T) tau a"
  then show "\<exists>b. two_link_body m1 m2 l1 (l1 / 2) (l2 / 2) (m1 * (l1 / 2)\<^sup>2) (m2 * (l2 / 2)\<^sup>2) g dt tau t a = Inr b
                \<and> arm_inv (nat numICs) (nat T) tau b"
    using k two_link_body_inv [OF tau, of t a] by simp
qed

lemma two_link_prefix_Suc:
  "two_link_prefix q1_range q2_range dq1_range dq2_range numICs T dt m1 m2 l1 l2 g r1 r2 r3 r4 tau (Suc k) =
     (case two_link_prefix q1_range q2_range dq1_range dq2_range numICs T dt m1 m2 l1 l2 g
             r1 r2 r3 r4 tau k of
        Inl e \<Rightarrow> Inl e
      | Inr s \<Rightarrow> two_link_body m1 m2 l1 (l1 / 2) (l2 / 2) (m1 * (l1 / 2)\<^sup>2) (m2 * (l2 / 2)\<^sup>2) g dt tau k s)"
  by (simp add: two_link_prefix_def for_loop_append split: sum.splits)

lemma two_link_prefix_split:
  assumes "k \<le> m"
  shows "two_link_prefix q1_range q2_range dq1_range dq2_range numICs T dt m1 m2 l1 l2 g r1 r2 r3 r4 tau m =
     (case two_link_prefix q1_range q2_range dq1_range dq2_range numICs T dt m1 m2 l1 l2 g
             r1 r2 r3 r4 tau k of
        Inl e \<Rightarrow> Inl e
      | Inr s \<Rightarrow> for_loop (two_link_body m1 m2 l1 (l1 / 2) (l2 / 2) (m1 * (l1 / 2)\<^sup>2) (m2 * (l2 / 2)\<^sup>2) g dt tau)
                  [k..<m] s)"
proof -
  have "[0..<m] = [0..<k] @ [k..<m]" using assms upt_add_eq_append [of 0 k "m - k"] by simp
  then show ?thesis by (simp add: two_link_prefix_def for_loop_append)
qed

lemma two_link_loop_frame:
  assumes tau: "shaped3 n m 2 tau"
    and run: "for_loop (two_link_body m1 m2 l1 (l1 / 2) (l2 / 2) (m1 * (l1 / 2)\<^sup>2) (m2 * (l2 / 2)\<^sup>2) g dt tau) ts s = Inr s'"
    and s: "arm_inv n m tau s" and ts: "\<forall>t'\<in>set ts. t' < m \<and> t' \<noteq> t" and i: "i < n" and t: "t < m"
  shows "snd (snd (snd (snd s'))) ! i ! t = snd (snd (snd (snd s))) ! i ! t"
proof -
  let ?I = "\<lambda>a. arm_inv n m tau a \<and> snd (snd (snd (snd a))) ! i ! t = snd (snd (snd (snd s))) ! i ! t"
  have "?I s'"
  proof (rule for_loop_invariant [OF run, of ?I])
    show "?I s" using s by simp
  next
    fix t' a b
    assume t': "t' \<in> set ts" and a: "?I a"
      and step: "two_link_body m1 m2 l1 (l1 / 2) (l2 / 2) (m1 * (l1 / 2)\<^sup>2) (m2 * (l2 / 2)\<^sup>2) g dt tau t' a = Inr b"
    obtain q1 q2 dq1 dq2 data where eq: "a = (q1, q2, dq1, dq2, data)" by (cases a)
    have f: "length q1 = n" "length q2 = n" "length dq1 = n" "length dq2 = n" "shaped3 n m 6 data"
      using a unfolding eq arm_inv_iff by simp_all
    have lt: "t' < m" and ne: "t \<noteq> t'" using ts t' by auto
    have inv_a: "arm_inv n m tau (q1, q2, dq1, dq2, data)" using a unfolding eq by simp
    have "snd (snd (snd (snd b))) =
        store_step (store_step (store_step (store_step data t' 0 q1) t' 1 q2) t' 2 dq1) t' 3 dq2"
      using two_link_body_step [OF inv_a tau lt, of m1 m2 l1 l2 g dt] step unfolding eq by auto
    then have "snd (snd (snd (snd b))) ! i ! t = snd (snd (snd (snd a))) ! i ! t"
      unfolding eq using store_four_nth [OF f(5) f(1-4) i t, of t'] ne by simp
    moreover have "arm_inv n m tau b"
      using two_link_body_inv [OF tau lt, of a m1 m2 l1 l2 g dt] a step by auto
    ultimately show "?I b" using a by simp
  qed
  then show ?thesis by simp
qed

lemma two_link_recorded:
  assumes r: "length r1 = nat numICs" "length r2 = nat numICs" "length r3 = nat numICs" "length r4 = nat numICs"
    and tau: "shaped3 (nat numICs) (nat T) 2 tau"
    and t: "t < nat T" and i: "i < nat numICs"
    and pre: "two_link_prefix q1_range q2_range dq1_range dq2_range numICs T dt m1 m2 l1 l2 g
                r1 r2 r3 r4 tau t = Inr (q1, q2, dq1, dq2, b)"
    and fin: "two_link_prefix q1_range q2_range dq1_range dq2_range numICs T dt m1 m2 l1 l2 g
                r1 r2 r3 r4 tau k = Inr (q1e, q2e, dq1e, dq2e, data)"
    and k: "t < k" "k \<le> nat T"
  shows "data ! i ! t = [q1 ! i, q2 ! i, dq1 ! i, dq2 ! i, tau ! i ! t ! 0, tau ! i ! t ! 1]"
proof -
  let ?body = "two_link_body m1 m2 l1 (l1 / 2) (l2 / 2) (m1 * (l1 / 2)\<^sup>2) (m2 * (l2 / 2)\<^sup>2) g dt tau"
  have inv: "arm_inv (nat numICs) (nat T) tau (q1, q2, dq1, dq2, b)"
    using two_link_prefix_ok [OF r tau, of t q1_range q2_range dq1_range dq2_range dt m1 m2 l1 l2 g] t pre
    by simp
  have f: "length q1 = nat numICs" "length q2 = nat numICs" "length dq1 = nat numICs"
      "length dq2 = nat numICs" "shaped3 (nat numICs) (nat T) 6 b"
      "\<forall>i<nat numICs. \<forall>t<nat T. b ! i ! t ! 4 = tau ! i ! t ! 0 \<and> b ! i ! t ! 5 = tau ! i ! t ! 1"
    using inv unfolding arm_inv_iff by simp_all
  obtain s1 where s1: "?body t (q1, q2, dq1, dq2, b) = Inr s1"
    and s1_inv: "arm_inv (nat numICs) (nat T) tau s1"
    using two_link_body_inv [OF tau t inv] by blast
  have s1_eq: "snd (snd (snd (snd s1))) =
      store_step (store_step (store_step (store_step b t 0 q1) t 1 q2) t 2 dq1) t 3 dq2"
    using two_link_body_step [OF inv tau t, of m1 m2 l1 l2 g dt] s1 by auto
  have "[t..<k] = t # [Suc t..<k]" using k by (simp add: upt_conv_Cons)
  then have "for_loop ?body [Suc t..<k] s1 = Inr (q1e, q2e, dq1e, dq2e, data)"
    using fin pre s1
      two_link_prefix_split [of t k q1_range q2_range dq1_range dq2_range numICs T dt m1 m2 l1 l2 g
        r1 r2 r3 r4 tau] k
    by simp
  then have "snd (snd (snd (snd (q1e, q2e, dq1e, dq2e, data)))) ! i ! t = snd (snd (snd (snd s1))) ! i ! t"
    using k by (intro two_link_loop_frame [OF tau _ s1_inv _ i t]) auto
  then show ?thesis
    using s1_eq store_four_nth [OF f(5) f(1-4) i t, of t] f(6) i t by simp
qed

lemma two_link_steps:
  assumes r: "length r1 = nat numICs" "length r2 = nat numICs" "length r3 = nat numICs" "length r4 = nat numICs"
    and tau: "shaped3 (nat numICs) (nat T) 2 tau"
    and t: "t < nat T" and i: "i < nat numICs"
  shows "\<exists>q1 q2 dq1 dq2 b q1' q2' dq1' dq2' b' q1e q2e dq1e dq2e data.
     two_link_prefix q1_range q2_range dq1_range dq2_range numICs T dt m1 m2 l1 l2 g
        r1 r2 r3 r4 tau t = Inr (q1, q2, dq1, dq2, b)
   \<and> two_link_prefix q1_range q2_range dq1_range dq2_range numICs T dt m1 m2 l1 l2 g
        r1 r2 r3 r4 tau (Suc t) = Inr (q1', q2', dq1', dq2', b')
   \<and> two_link_prefix q1_range q2_range dq1_range dq2_range numICs T dt m1 m2 l1 l2 g
        r1 r2 r3 r4 tau (nat T) = Inr (q1e, q2e, dq1e, dq2e, data)
   \<and> data ! i ! t = [q1 ! i, q2 ! i, dq1 ! i, dq2 ! i, tau ! i ! t ! 0, tau ! i ! t ! 1]
   \<and> dq1' ! i = dq1 ! i + fst (two_link_accel m1 m2 l1 l2 g (q1 ! i) (q2 ! i) (dq1 ! i) (dq2 ! i)
                                  (tau ! i ! t ! 0) (tau ! i ! t ! 1)) * dt
   \<and> dq2' ! i = dq2 ! i + snd (two_link_accel m1 m2 l1 l2 g (q1 ! i) (q2 ! i) (dq1 ! i) (dq2 ! i)
                                  (tau ! i ! t ! 0) (tau ! i ! t ! 1)) * dt
   \<and> q1' ! i = q1 ! i + dq1' ! i * dt
   \<and> q2' ! i = q2 ! i + dq2' ! i * dt
   \<and> (Suc t < nat T \<longrightarrow>
        data ! i ! Suc t = [q1' ! i, q2' ! i, dq1' ! i, dq2' ! i, tau ! i ! Suc t ! 0, tau ! i ! Suc t ! 1])"
proof -
  let ?pre = "two_link_prefix q1_range q2_range dq1_range dq2_range numICs T dt m1 m2 l1 l2 g r1 r2 r3 r4 tau"
  obtain s where s: "?pre t = Inr s" and s_inv: "arm_inv (nat numICs) (nat T) tau s"
    using two_link_prefix_ok [OF r tau, of t q1_range q2_range dq1_range dq2_range dt m1 m2 l1 l2 g] t by auto
  obtain s' where s': "?pre (Suc t) = Inr s'"
    using two_link_prefix_ok [OF r tau, of "Suc t" q1_range q2_range dq1_range dq2_range dt m1 m2 l1 l2 g] t
    by auto
  obtain se where se: "?pre (nat T) = Inr se"
    using two_link_prefix_ok [OF r tau, of "nat T" q1_range q2_range dq1_range dq2_range dt m1 m2 l1 l2 g]
    by auto
  obtain q1 q2 dq1 dq2 b where eq: "s = (q1, q2, dq1, dq2, b)" by (cases s)
  obtain q1' q2' dq1' dq2' b' where eq': "s' = (q1', q2', dq1', dq2', b')" by (cases s')
  obtain q1e q2e dq1e dq2e data where eqe: "se = (q1e, q2e, dq1e, dq2e, data)" by (cases se)
  have rec: "data ! i ! t = [q1 ! i, q2 ! i, dq1 ! i, dq2 ! i, tau ! i ! t ! 0, tau ! i ! t ! 1]"
    using two_link_recorded [OF r tau t i s [unfolded eq] se [unfolded eqe]] t by simp
  have step: "two_link_body m1 m2 l1 (l1 / 2) (l2 / 2) (m1 * (l1 / 2)\<^sup>2) (m2 * (l2 / 2)\<^sup>2) g dt tau t
                (q1, q2, dq1, dq2, b) = Inr (q1', q2', dq1', dq2', b')"
    using s s' unfolding eq eq' two_link_prefix_Suc by simp
  have inc: "dq1' ! i = dq1 ! i + fst (two_link_accel m1 m2 l1 l2 g (q1 ! i) (q2 ! i) (dq1 ! i) (dq2 ! i)
                                  (tau ! i ! t ! 0) (tau ! i ! t ! 1)) * dt
   \<and> dq2' ! i = dq2 ! i + snd (two_link_accel m1 m2 l1 l2 g (q1 ! i) (q2 ! i) (dq1 ! i) (dq2 ! i)
                                  (tau ! i ! t ! 0) (tau ! i ! t ! 1)) * dt
   \<and> q1' ! i = q1 ! i + dq1' ! i * dt
   \<and> q2' ! i = q2 ! i + dq2' ! i * dt"
    using two_link_body_step [OF s_inv [unfolded eq] tau t, of m1 m2 l1 l2 g dt] step i by auto
  have nxt: "Suc t < nat T \<longrightarrow>
        data ! i ! Suc t = [q1' ! i, q2' ! i, dq1' ! i, dq2' ! i, tau ! i ! Suc t ! 0, tau ! i ! Suc t ! 1]"
  proof
    assume lt: "Suc t < nat T"
    show "data ! i ! Suc t = [q1' ! i, q2' ! i, dq1' ! i, dq2' ! i, tau ! i ! Suc t ! 0, tau ! i ! Suc t ! 1]"
      using two_link_recorded [OF r tau lt i s' [unfolded eq'] se [unfolded eqe]] lt by simp
  qed
  show ?thesis
    using s s' se rec inc nxt unfolding eq eq' eqe by blast
qed

lemma two_link_draws_shape:
  assumes "two_link_draws P numICs T seed = (r1, r2, r3, r4, r5, gen)"
  shows "length r1 = nat numICs" and "length r2 = nat numICs" and "length r3 = nat numICs"
    and "length r4 = nat numICs" and "shaped3 (nat numICs) (nat T) 2 r5"
proof -
  obtain a g1 where a: "fill (uniform P) (nat numICs) (seeded P seed) = (a, g1)"
    by (cases "fill (uniform P) (nat numICs) (seeded P seed)")
  obtain b g2 where b: "fill (uniform P) (nat numICs) g1 = (b, g2)"
    by (cases "fill (uniform P) (nat numICs) g1")
  obtain c g3 where c: "fill (uniform P) (nat numICs) g2 = (c, g3)"
    by (cases "fill (uniform P) (nat numICs) g2")
  obtain d g4 where d: "fill (uniform P) (nat numICs) g3 = (d, g4)"
    by (cases "fill (uniform P) (nat numICs) g3")
  obtain e g5 where e: "fill (fill (fill (uniform P) 2) (nat T)) (nat numICs) g4 = (e, g5)"
    by (cases "fill (fill (fill (uniform P) 2) (nat T)) (nat numICs) g4")
  have eq: "r1 = a" "r2 = b" "r3 = c" "r4 = d" "r5 = e"
    using assms a b c d e by (simp_all add: two_link_draws_def)
  show "length r1 = nat numICs" using fill_length [of "uniform P" "nat numICs" "seeded P seed"] a eq by simp
  show "length r2 = nat numICs" using fill_length [of "uniform P" "nat numICs" g1] b eq by simp
  show "length r3 = nat numICs" using fill_length [of "uniform P" "nat numICs" g2] c eq by simp
  show "length r4 = nat numICs" using fill_length [of "uniform P" "nat numICs" g3] d eq by simp
  have "list_all (\<lambda>traj. length traj = nat T \<and> list_all (\<lambda>cell. length cell = 2) traj)
          (fst (fill (fill (fill (uniform P) 2) (nat T)) (nat numICs) g4))"
  proof (rule fill_list_all)
    fix s
    have "list_all (\<lambda>cell. length cell = 2) (fst (fill (fill (uniform P) 2) (nat T) s))"
      by (rule fill_list_all) simp
    then show "length (fst (fill (fill (uniform P) 2) (nat T) s)) = nat T \<and>
          list_all (\<lambda>cell. length cell = 2) (fst (fill (fill (uniform P) 2) (nat T) s))"
      by simp
  qed
  then show "shaped3 (nat numICs) (nat T) 2 r5"
    using fill_length [of "fill (fill (uniform P) 2) (nat T)" "nat numICs" g4] e eq
    by (simp add: shaped3_def)
qed

lemma shaped3_map: "shaped3 n m k x \<Longrightarrow> shaped3 n m k (map (map (map f)) x)"
  by (simp add: shaped3_def list_all_iff)

section \<open>Runs, initial states and effects\<close>

lemma generate_two_link_data_run:
  assumes ok: "seed_ok seed" "0 \<le> numICs" "0 \<le> T"
    and d: "two_link_draws P numICs T seed = (r1, r2, r3, r4, r5, gen)"
  shows "\<exists>q1e q2e dq1e dq2e data.
      two_link_prefix q1_range q2_range dq1_range dq2_range numICs T dt m1 m2 l1 l2 g
        r1 r2 r3 r4 (map (map (map (\<lambda>r. (r - 0.5) * 2 * tau_max))) r5) (nat T)
        = Inr (q1e, q2e, dq1e, dq2e, data)
    \<and> generate_two_link_data P q1_range q2_range dq1_range dq2_range numICs T dt seed
         tau_max m1 m2 l1 l2 g w
        = (Inr data, w\<lparr>generator := gen, stdout := stdout w @ [inertia_line m1 m2 l1 l2]\<rparr>)
    \<and> shaped3 (nat numICs) (nat T) 6 data"
proof -
  let ?tau = "map (map (map (\<lambda>r. (r - 0.5) * 2 * tau_max))) r5"
  note sh = two_link_draws_shape [OF d]
  have tau: "shaped3 (nat numICs) (nat T) 2 ?tau" using sh(5) by (rule shaped3_map)
  obtain s where s: "two_link_prefix q1_range q2_range dq1_range dq2_range numICs T dt m1 m2 l1 l2 g
        r1 r2 r3 r4 ?tau (nat T) = Inr s" and inv: "arm_inv (nat numICs) (nat T) ?tau s"
    using two_link_prefix_ok [OF sh(1-4) tau, of "nat T" q1_range q2_range dq1_range dq2_range dt m1 m2 l1 l2 g]
    by auto
  obtain q1e q2e dq1e dq2e data where eq: "s = (q1e, q2e, dq1e, dq2e, data)" by (cases s)
  show ?thesis
    using s inv generate_two_link_data_ok [OF ok d, of q1_range q2_range dq1_range dq2_range dt tau_max m1 m2 l1 l2 g w]
    unfolding eq arm_inv_iff by simp
qed

lemma fill_unit_interval:
  assumes "\<forall>s. 0 \<le> fst (uniform P s) \<and> fst (uniform P s) < 1"
    and "fill (uniform P) n s0 = (r, s1)" and "i < n"
  shows "0 \<le> r ! i \<and> r ! i < 1"
proof -
  have "list_all (\<lambda>c. 0 \<le> c \<and> c < 1) (fst (fill (uniform P) n s0))"
    using assms(1) by (intro fill_list_all) simp
  moreover have "length r = n" using fill_length [of "uniform P" n s0] assms(2) by simp
  ultimately show ?thesis using assms(2,3) by (simp add: list_all_length)
qed

lemma sample32_in_range32:
  assumes "fst rng \<le> snd rng" and "0 \<le> r" and "r < 1"
  shows "in_range (range32 rng) (sample32 rng r)"
proof -
  let ?c = "to_float32 (to_double (snd rng - fst rng))"
  let ?lo = "to_float32 (fst rng)"
  have c: "0 \<le> ?c" using assms(1) by (intro to_float32_nonneg to_double_nonneg) simp
  have "?c * r \<le> ?c * 1" using c assms(3) by (intro mult_left_mono) simp_all
  then have "to_float32 (?c * r) \<le> to_float32 ?c" by (intro to_float32_mono) simp
  then have up: "to_float32 (?c * r) \<le> ?c" by (simp only: to_float32_idem)
  have "0 \<le> ?c * r" using c assms(2) by simp
  then have lo: "0 \<le> to_float32 (?c * r)" by (rule to_float32_nonneg)
  have "to_float32 ?lo \<le> to_float32 (to_float32 (?c * r) + ?lo)"
    using lo by (intro to_float32_mono) simp
  then have a: "?lo \<le> sample32 rng r" by (simp only: to_float32_idem sample32_def)
  have b: "sample32 rng r \<le> to_float32 (?c + ?lo)"
    unfolding sample32_def using up by (intro to_float32_mono) simp
  show ?thesis using a b by (simp add: in_range_def range32_def)
qed

lemma range32_float32: "float32_range rng \<Longrightarrow> range32 rng = rng"
  by (simp add: float32_range_def range32_def)

lemma sample32_in_range:
  assumes "fst rng \<le> snd rng" and "0 \<le> r" and "r < 1"
  shows "in_range (range32 rng) (sample32 rng r)
       \<and> (float32_range rng \<longrightarrow> in_range rng (sample32 rng r))"
  using sample32_in_range32 [OF assms] range32_float32 [of rng] by auto

lemma oscillator_draws_unit:
  assumes u: "\<forall>s. 0 \<le> fst (uniform P s) \<and> fst (uniform P s) < 1"
    and d: "oscillator_draws P numICs T seed = (r1, r2, r3, gen)" and i: "i < nat numICs"
  shows "0 \<le> r1 ! i \<and> r1 ! i < 1" and "0 \<le> r2 ! i \<and> r2 ! i < 1"
proof -
  obtain a g1 where a: "fill (uniform P) (nat numICs) (seeded P seed) = (a, g1)"
    by (cases "fill (uniform P) (nat numICs) (seeded P seed)")
  obtain b g2 where b: "fill (uniform P) (nat numICs) g1 = (b, g2)"
    by (cases "fill (uniform P) (nat numICs) g1")
  have eq: "r1 = a" "r2 = b" using d a b by (auto simp: oscillator_draws_def split: prod.splits)
  show "0 \<le> r1 ! i \<and> r1 ! i < 1" unfolding eq using fill_unit_interval [OF u a i] .
  show "0 \<le> r2 ! i \<and> r2 ! i < 1" unfolding eq using fill_unit_interval [OF u b i] .
qed

lemma two_link_draws_unit:
  assumes u: "\<forall>s. 0 \<le> fst (uniform P s) \<and> fst (uniform P s) < 1"
    and d: "two_link_draws P numICs T seed = (r1, r2, r3, r4, r5, gen)" and i: "i < nat numICs"
  shows "0 \<le> r1 ! i \<and> r1 ! i < 1" and "0 \<le> r2 ! i \<and> r2 ! i < 1"
    and "0 \<le> r3 ! i \<and> r3 ! i < 1" and "0 \<le> r4 ! i \<and> r4 ! i < 1"
proof -
  obtain a g1 where a: "fill (uniform P) (nat numICs) (seeded P seed) = (a, g1)"
    by (cases "fill (uniform P) (nat numICs) (seeded P seed)")
  obtain b g2 where b: "fill (uniform P) (nat numICs) g1 = (b, g2)"
    by (cases "fill (uniform P) (nat numICs) g1")
  obtain c g3 where c: "fill (uniform P) (nat numICs) g2 = (c, g3)"
    by (cases "fill (uniform P) (nat numICs) g2")
  obtain e g4 where e: "fill (uniform P) (nat numICs) g3 = (e, g4)"
    by (cases "fill (uniform P) (nat numICs) g3")
  have eq: "r1 = a" "r2 = b" "r3 = c" "r4 = e"
    using d a b c e by (auto simp: two_link_draws_def split: prod.splits)
  show "0 \<le> r1 ! i \<and> r1 ! i < 1" unfolding eq using fill_unit_interval [OF u a i] .
  show "0 \<le> r2 ! i \<and> r2 ! i < 1" unfolding eq using fill_unit_interval [OF u b i] .
  show "0 \<le> r3 ! i \<and> r3 ! i < 1" unfolding eq using fill_unit_interval [OF u c i] .
  show "0 \<le> r4 ! i \<and> r4 ! i < 1" unfolding eq using fill_unit_interval [OF u e i] .
qed

lemma generate_data_initial:
  assumes run: "fst (generate_data P x1range x2range numICs mu lam T dt seed w) = Inr xuk"
    and d: "oscillator_draws P numICs T seed = (r1, r2, r3, gen)"
    and i: "i < nat numICs" and T: "0 < T"
  shows "xuk ! i ! 0 ! 0 = scale_to_range x1range r1 ! i"
    and "xuk ! i ! 0 ! 1 = scale_to_range x2range r2 ! i"
proof -
  have ok: "seed_ok seed" "0 \<le> numICs" "0 \<le> T" using generate_data_Inr [OF run] by simp_all
  have T': "0 < nat T" using T by simp
  let ?u = "map (map (\<lambda>r. r - 0.5)) r3"
  note sh = oscillator_draws_shape [OF d]
  have us: "shaped2 (nat numICs) (nat T) ?u" using sh(3) by (rule shaped2_map)
  obtain x1e x2e b where o: "oscillator x1range x2range numICs mu lam T dt r1 r2 ?u = Inr (x1e, x2e, b)"
    and gd: "generate_data P x1range x2range numICs mu lam T dt seed w = (Inr b, w\<lparr>generator := gen\<rparr>)"
    using generate_data_run [OF ok d, of x1range x2range mu lam dt w] by blast
  have b: "b = xuk" using gd run by simp
  obtain x1 x2 ia where ia: "oscillator_init x1range x2range numICs T r1 r2 ?u = (x1, x2, ia)"
    by (cases "oscillator_init x1range x2range numICs T r1 r2 ?u")
  have x: "x1 = scale_to_range x1range r1"
    "x2 = scale_to_range x2range r2"
    using ia by (auto simp: oscillator_init_def Let_def)
  have p0: "oscillator_prefix x1range x2range numICs mu lam T dt r1 r2 ?u 0 = Inr (x1, x2, ia)"
    using ia by (simp add: oscillator_prefix_def)
  have "xuk ! i ! 0 = [x1 ! i, x2 ! i, ?u ! i ! 0]"
    using oscillator_recorded [OF sh(1,2) us T' i p0 o [unfolded oscillator_prefix_full b] T'] by simp
  then show "xuk ! i ! 0 ! 0 = scale_to_range x1range r1 ! i"
    and "xuk ! i ! 0 ! 1 = scale_to_range x2range r2 ! i"
    unfolding x by simp_all
qed

lemma generate_two_link_data_initial:
  assumes run: "fst (generate_two_link_data P q1_range q2_range dq1_range dq2_range numICs T dt seed
                      tau_max m1 m2 l1 l2 g w) = Inr data"
    and d: "two_link_draws P numICs T seed = (r1, r2, r3, r4, r5, gen)"
    and i: "i < nat numICs" and T: "0 < T"
  shows "data ! i ! 0 ! 0 = scale_to_range q1_range r1 ! i"
    and "data ! i ! 0 ! 1 = scale_to_range q2_range r2 ! i"
    and "data ! i ! 0 ! 2 = scale_to_range dq1_range r3 ! i"
    and "data ! i ! 0 ! 3 = scale_to_range dq2_range r4 ! i"
proof -
  have ok: "seed_ok seed" "0 \<le> numICs" "0 \<le> T" using generate_two_link_data_Inr [OF run] by simp_all
  have T': "0 < nat T" using T by simp
  let ?tau = "map (map (map (\<lambda>r. (r - 0.5) * 2 * tau_max))) r5"
  note sh = two_link_draws_shape [OF d]
  have ts: "shaped3 (nat numICs) (nat T) 2 ?tau" using sh(5) by (rule shaped3_map)
  obtain q1e q2e dq1e dq2e b where
    o: "two_link_prefix q1_range q2_range dq1_range dq2_range numICs T dt m1 m2 l1 l2 g
          r1 r2 r3 r4 ?tau (nat T) = Inr (q1e, q2e, dq1e, dq2e, b)"
    and gd: "fst (generate_two_link_data P q1_range q2_range dq1_range dq2_range numICs T dt seed
         tau_max m1 m2 l1 l2 g w) = Inr b"
    using generate_two_link_data_run [OF ok d, of q1_range q2_range dq1_range dq2_range dt m1 m2 l1 l2 g tau_max w]
    by auto
  have b: "b = data" using gd run by simp
  obtain q1 q2 dq1 dq2 ia where
    ia: "two_link_init q1_range q2_range dq1_range dq2_range numICs T r1 r2 r3 r4 ?tau = (q1, q2, dq1, dq2, ia)"
    by (cases "two_link_init q1_range q2_range dq1_range dq2_range numICs T r1 r2 r3 r4 ?tau")
  have x: "q1 = scale_to_range q1_range r1"
    "q2 = scale_to_range q2_range r2"
    "dq1 = scale_to_range dq1_range r3"
    "dq2 = scale_to_range dq2_range r4"
    using ia by (auto simp: two_link_init_def Let_def)
  have p0: "two_link_prefix q1_range q2_range dq1_range dq2_range numICs T dt m1 m2 l1 l2 g
          r1 r2 r3 r4 ?tau 0 = Inr (q1, q2, dq1, dq2, ia)"
    using ia by (simp add: two_link_prefix_def)
  have "data ! i ! 0 = [q1 ! i, q2 ! i, dq1 ! i, dq2 ! i, ?tau ! i ! 0 ! 0, ?tau ! i ! 0 ! 1]"
    using two_link_recorded [OF sh(1-4) ts T' i p0 o [unfolded b] T'] by simp
  then show "data ! i ! 0 ! 0 = scale_to_range q1_range r1 ! i"
    and "data ! i ! 0 ! 1 = scale_to_range q2_range r2 ! i"
    and "data ! i ! 0 ! 2 = scale_to_range dq1_range r3 ! i"
    and "data ! i ! 0 ! 3 = scale_to_range dq2_range r4 ! i"
    unfolding x by (simp_all add: eval_nat_numeral)
qed

lemma cycle_torch_unit: "\<forall>s. 0 \<le> fst (uniform cycle_torch s) \<and> fst (uniform cycle_torch s) < 1"
proof
  fix s :: nat
  have "s mod 4 < 4" by simp
  then have "real (s mod 4) < 4" by (metis of_nat_less_iff of_nat_numeral)
  then show "0 \<le> fst (uniform cycle_torch s) \<and> fst (uniform cycle_torch s) < 1"
    by (simp add: cycle_torch_def)
qed

lemma cycle_arm_draws:
  "two_link_draws cycle_torch 1 2 0 = ([0], [1 / 4], [1 / 2], [3 / 4], [[[0, 1 / 4], [1 / 2, 3 / 4]]], 8)"
  by (simp add: two_link_draws_def cycle_torch_def fill_numeral fill_1)

lemma accel_at_rest:
  "two_link_accel 1 1 1 1 (981 / 100) 0 0 0 0 (- 1) (- (1 / 2)) = (- (981 / 100), 881 / 100)"
  by (simp add: two_link_accel_def Let_def power2_eq_square)

lemma inertia_line_unit: "inertia_line 1 1 1 1 = ''Computed Inertia: I1 = 0.2500, I2 = 0.2500''"
proof -
  have e: "(1 :: real) * (1 / 2)\<^sup>2 = 1 / 4" by (simp add: power2_eq_square)
  show ?thesis by (simp only: inertia_line_def e format_quarter) simp
qed


section \<open>Rounded constants, products and samples\<close>

lemma double_tenth: "to_double 0.1 = 3602879701896397 / 2 ^ 55"
  unfolding to_double_def
  by (subst round_binary_eval [where b = 1071]) (simp_all add: py_round_def Let_def)

lemma double_fifth: "to_double 0.2 = 3602879701896397 / 2 ^ 54"
  unfolding to_double_def
  by (subst round_binary_eval [where b = 1072]) (simp_all add: py_round_def Let_def)

lemma double_seven_tenths: "to_double 0.7 = 3152519739159347 / 2 ^ 52"
  unfolding to_double_def
  by (subst round_binary_eval [where b = 1074]) (simp_all add: py_round_def Let_def)

lemma double_100: "to_double 100 = 100"
  unfolding to_double_def
  by (subst round_binary_eval [where b = 1081]) (simp_all add: py_round_def Let_def)

lemma double_45: "to_double 45 = 45"
  unfolding to_double_def
  by (subst round_binary_eval [where b = 1080]) (simp_all add: py_round_def Let_def)

lemma products_100:
  "to_double (3602879701896397 / 2 ^ 55 * 100) = 10"
  "to_double (3602879701896397 / 2 ^ 54 * 100) = 20"
  "to_double (3152519739159347 / 2 ^ 52 * 100) = 70"
  unfolding to_double_def
    apply (subst round_binary_eval [where b = 1078]; simp add: py_round_def Let_def)
   apply (subst round_binary_eval [where b = 1079]; simp add: py_round_def Let_def)
  apply (subst round_binary_eval [where b = 1081]; simp add: py_round_def Let_def)
  done

lemma products_45:
  "to_double (3602879701896397 / 2 ^ 55 * 45) = 9 / 2"
  "to_double (3602879701896397 / 2 ^ 54 * 45) = 9"
  "to_double (3152519739159347 / 2 ^ 52 * 45) = 8866461766385663 / 2 ^ 48"
  unfolding to_double_def
    apply (subst round_binary_eval [where b = 1077]; simp add: py_round_def Let_def)
   apply (subst round_binary_eval [where b = 1078]; simp add: py_round_def Let_def)
  apply (subst round_binary_eval [where b = 1079]; simp add: py_round_def Let_def)
  done

lemma counts_100:
  "py_round (to_double (to_double 0.1 * to_double 100)) = 10"
  "py_round (to_double (to_double 0.2 * to_double 100)) = 20"
  "py_round (to_double (to_double 0.7 * to_double 100)) = 70"
  by (simp_all only: double_tenth double_fifth double_seven_tenths double_100 products_100)
     (simp_all add: py_round_def Let_def)

lemma counts_45:
  "py_round (to_double (to_double 0.1 * to_double 45)) = 4"
  "py_round (to_double (to_double 0.2 * to_double 45)) = 9"
  "py_round (to_double (to_double 0.7 * to_double 45)) = 31"
  by (simp_all only: double_tenth double_fifth double_seven_tenths double_45 products_45)
     (simp_all add: py_round_def Let_def)

lemma py_round_nearest_even: "nearest_even x (py_round x)"
proof -
  have f: "of_int \<lfloor>x\<rfloor> \<le> x" "x < of_int \<lfloor>x\<rfloor> + 1" by linarith+
  show ?thesis
    unfolding nearest_even_def py_round_def Let_def using f by auto
qed

lemma py_float_ok:
  assumes "0 \<le> n" and "n < 2 ^ 1023"
  shows "py_float n = Inr (to_double (of_int n))"
proof -
  have "real_of_int n < 2 ^ 1023" using assms(2) by (metis of_int_less_iff of_int_numeral of_int_power)
  then have "to_double (of_int n) \<le> 2 ^ 1023"
    unfolding to_double_def using assms(1) by (intro round_binary_less_power) simp_all
  moreover have "0 \<le> to_double (of_int n)" using assms(1) by (intro to_double_nonneg) simp
  moreover have "(2::real) ^ 1023 < 2 ^ 1024" by (intro power_strict_increasing) simp_all
  ultimately show ?thesis by (simp add: py_float_def Let_def)
qed

lemma float_mul_int_ok:
  assumes "0 \<le> n" and "n < 2 ^ 1023"
  shows "float_mul_int c n = Inr (to_double (c * to_double (of_int n)))"
  using py_float_ok [OF assms] by (simp add: float_mul_int_def)

lemma float32_seven_tenths: "to_float32 (to_double 0.7) = 11744051 / 2 ^ 24"
  unfolding double_seven_tenths to_float32_def
  by (subst round_binary_eval [where b = 149]) (simp_all add: py_round_def Let_def)

lemma cycle_draws_1_1:
  "oscillator_draws cycle_torch 1 1 0 = ([0], [1 / 4], [[1 / 2]], 3)"
  by (simp add: oscillator_draws_def cycle_torch_def fill_numeral fill_1)

lemma float32_fixed: "to_float32 (11744051 / 2 ^ 24) = 11744051 / 2 ^ 24"
  using to_float32_idem [of "to_double 0.7"] unfolding float32_seven_tenths .

lemma scale_to_range_low: "scale_to_range (to_double 0.7, 1) [0] = [11744051 / 2 ^ 24]"
  using float32_fixed
  by (simp add: scale_to_range_def round32_def scale_def shift_def float32_seven_tenths)

lemma scale_to_range_point: "scale_to_range (to_double 0.7, to_double 0.7) [r] = [11744051 / 2 ^ 24]"
  using float32_fixed
  by (simp add: scale_to_range_def round32_def scale_def shift_def float32_seven_tenths)

lemma scale_to_range_quarter: "scale_to_range (0, 1) [1 / 4] = [1 / 4]"
  by (simp add: scale_to_range_def round32_def scale_def shift_def to_float32_quarter)

lemma low_end_run:
  "fst (generate_data cycle_torch (to_double 0.7, 1) (0, 1) 1 1 1 1 (1 / 10) 0 world0) =
     Inr [[[11744051 / 2 ^ 24, 1 / 4, 0]]]"
proof -
  have o: "oscillator (to_double 0.7, 1) (0, 1) 1 1 1 1 (1 / 10) [0] [1 / 4]
             (map (map (\<lambda>r. r - 0.5)) [[1 / 2]]) =
      Inr ([11744051 / 2 ^ 24 + 11744051 / 2 ^ 24 / 10], [1 / 4 + (1 / 4 - (11744051 / 2 ^ 24)\<^sup>2) / 10],
           [[[11744051 / 2 ^ 24, 1 / 4, 0]]])"
    apply (simp only: oscillator_def oscillator_init_def scale_to_range_low scale_to_range_quarter)
    apply (simp add: tensor_eval)
    apply (simp add: eval_nat_numeral)
    done
  show ?thesis
    using generate_data_ok [OF _ _ _ cycle_draws_1_1, of "(to_double 0.7, 1)" "(0, 1)" 1 1 "1 / 10" world0] o
    by (simp add: seed_ok_def)
qed

lemma point_run:
  "fst (generate_data cycle_torch (to_double 0.7, to_double 0.7) (0, 1) 1 1 1 1 (1 / 10) 0 world0) =
     Inr [[[11744051 / 2 ^ 24, 1 / 4, 0]]]"
proof -
  have o: "oscillator (to_double 0.7, to_double 0.7) (0, 1) 1 1 1 1 (1 / 10) [0] [1 / 4]
             (map (map (\<lambda>r. r - 0.5)) [[1 / 2]]) =
      Inr ([11744051 / 2 ^ 24 + 11744051 / 2 ^ 24 / 10], [1 / 4 + (1 / 4 - (11744051 / 2 ^ 24)\<^sup>2) / 10],
           [[[11744051 / 2 ^ 24, 1 / 4, 0]]])"
    apply (simp only: oscillator_def oscillator_init_def scale_to_range_point scale_to_range_quarter)
    apply (simp add: tensor_eval)
    apply (simp add: eval_nat_numeral)
    done
  show ?thesis
    using generate_data_ok [OF _ _ _ cycle_draws_1_1,
        of "(to_double 0.7, to_double 0.7)" "(0, 1)" 1 1 "1 / 10" world0] o
    by (simp add: seed_ok_def)
qed

lemma float32_range_unit: "float32_range (0, 1)"
  by (simp add: float32_range_def)

lemma cycle_arm_draws_2_3:
  "two_link_draws cycle_torch 2 3 0 =
     ([0, 1 / 4], [1 / 2, 3 / 4], [0, 1 / 4], [1 / 2, 3 / 4],
      [[[0, 1 / 4], [1 / 2, 3 / 4], [0, 1 / 4]], [[1 / 2, 3 / 4], [0, 1 / 4], [1 / 2, 3 / 4]]], 20)"
  by (simp add: two_link_draws_def cycle_torch_def fill_numeral fill_1)

lemma sample32_unit:
  "sample32 (0, 1) (1 / 4) = 1 / 4" "sample32 (0, 1) (3 / 4) = 3 / 4"
  by (simp_all add: sample32_def to_float32_quarter to_float32_three_quarters)

lemma range32_unit: "range32 (0, 1) = (0, 1)"
  by (simp add: range32_def)

section \<open>Properties of the oscillator simulators\<close>

text \<open>
  C4. Zero control: whatever the ranges, the trajectory count, the rates, the horizon, the
  step and the seed, a buffer that \<^verbatim>\<open>generate_data_unforced\<close> returns has the shape
  \<open>[numICs, T_step, 3]\<close> and its third column (index 2) is zero for every trajectory
  and every time step.
\<close>

theorem unforced_control_zero:
  assumes "fst (generate_data_unforced P x1range x2range numICs mu lam T_step dt seed w) = Inr xuk"
  shows "shaped3 (nat numICs) (nat T_step) 3 xuk
       \<and> (\<forall>i<nat numICs. \<forall>t<nat T_step. xuk ! i ! t ! 2 = 0)"
proof -
  have ok: "seed_ok seed" "0 \<le> numICs" "0 \<le> T_step"
    using generate_data_unforced_Inr [OF assms] by simp_all
  obtain r1 r2 r3 g where d: "oscillator_draws P numICs T_step seed = (r1, r2, r3, g)"
    by (cases "oscillator_draws P numICs T_step seed")
  let ?u = "map (map (\<lambda>r. r * 0)) r3"
  obtain x1e x2e b where
    run: "generate_data_unforced P x1range x2range numICs mu lam T_step dt seed w = (Inr b, w\<lparr>generator := g\<rparr>)"
    and inv: "osc_rec (nat numICs) (nat T_step) ?u (x1e, x2e, b)"
    using generate_data_unforced_run [OF ok d, of x1range x2range mu lam dt w] by blast
  have b: "b = xuk" using run assms by simp
  have r3: "shaped2 (nat numICs) (nat T_step) r3" using oscillator_draws_shape(3) [OF d] .
  have "?u ! i ! t = 0" if "i < nat numICs" "t < nat T_step" for i t
    using that shaped2_length [OF r3] shaped2_nth [OF r3, of i] by simp
  then show ?thesis using inv unfolding b osc_rec_iff by simp
qed

theorem unforced_control_zero_witness:
  "fst (generate_data_unforced cycle_torch (0,1) (0,1) 2 1 1 3 (1/10) 0 world0) = 
  Inr [[[0, 1 / 2, 0], [0, 11 / 20, 0], [0, 121 / 200, 0]],
      [[1 / 4, 3 / 4, 0], [11 / 40, 131 / 160, 0], [121 / 400, 14289 / 16000, 0]]]
   \<and> [[[0, 1 / 2, 0], [0, 11 / 20, 0], [0, 121 / 200, 0]],
      [[1 / 4, 3 / 4, 0], [11 / 40, 131 / 160, 0], [121 / 400, 14289 / 16000, 0::real]]] ! 1 ! 2 ! 2 = 0"
  using unforced_control_zero [OF cycle_unforced_run] cycle_unforced_run by simp




text \<open>
  C10. With the same ranges, trajectory count, rates, horizon \<open>T > 0\<close>, step and seed,
  \<^verbatim>\<open>generate_data\<close> and \<^verbatim>\<open>generate_data_unforced\<close> both return, and their buffers hold
  the same \<open>x1\<close> and \<open>x2\<close> at time step 0 of every trajectory, whatever the state of
  the generator before either call.
\<close>

theorem same_initial_conditions:
  assumes "seed_ok seed" and "0 \<le> numICs" and "0 < T"
  shows "\<exists>a b. fst (generate_data P x1range x2range numICs mu lam T dt seed w) = Inr a
     \<and> fst (generate_data_unforced P x1range x2range numICs mu lam T dt seed w') = Inr b
     \<and> (\<forall>i<nat numICs. a ! i ! 0 ! 0 = b ! i ! 0 ! 0 \<and> a ! i ! 0 ! 1 = b ! i ! 0 ! 1)"
proof -
  have T: "0 \<le> T" "0 < nat T" using assms(3) by simp_all
  obtain r1 r2 r3 g where d: "oscillator_draws P numICs T seed = (r1, r2, r3, g)"
    by (cases "oscillator_draws P numICs T seed")
  let ?uf = "map (map (\<lambda>r. r - 0.5)) r3" and ?uz = "map (map (\<lambda>r. r * 0)) r3"
  note sh = oscillator_draws_shape [OF d]
  have uf: "shaped2 (nat numICs) (nat T) ?uf" and uz: "shaped2 (nat numICs) (nat T) ?uz"
    using sh(3) by (rule shaped2_map)+
  obtain x1a x2a a where a: "oscillator x1range x2range numICs mu lam T dt r1 r2 ?uf = Inr (x1a, x2a, a)"
    and ga: "generate_data P x1range x2range numICs mu lam T dt seed w = (Inr a, w\<lparr>generator := g\<rparr>)"
    using generate_data_run [OF assms(1,2) T(1) d, of x1range x2range mu lam dt w] by blast
  obtain x1b x2b b where b: "oscillator x1range x2range numICs mu lam T dt r1 r2 ?uz = Inr (x1b, x2b, b)"
    and gb: "generate_data_unforced P x1range x2range numICs mu lam T dt seed w' = (Inr b, w'\<lparr>generator := g\<rparr>)"
    using generate_data_unforced_run [OF assms(1,2) T(1) d, of x1range x2range mu lam dt w'] by blast
  have "a ! i ! 0 ! 0 = b ! i ! 0 ! 0 \<and> a ! i ! 0 ! 1 = b ! i ! 0 ! 1" if i: "i < nat numICs" for i
  proof -
    have pa: "oscillator_prefix x1range x2range numICs mu lam T dt r1 r2 ?uf 0
        = Inr (oscillator_init x1range x2range numICs T r1 r2 ?uf)"
      and pb: "oscillator_prefix x1range x2range numICs mu lam T dt r1 r2 ?uz 0
        = Inr (oscillator_init x1range x2range numICs T r1 r2 ?uz)"
      by (simp_all add: oscillator_prefix_def)
    obtain x1 x2 ia where ia: "oscillator_init x1range x2range numICs T r1 r2 ?uf = (x1, x2, ia)"
      by (cases "oscillator_init x1range x2range numICs T r1 r2 ?uf")
    obtain y1 y2 ib where ib: "oscillator_init x1range x2range numICs T r1 r2 ?uz = (y1, y2, ib)"
      by (cases "oscillator_init x1range x2range numICs T r1 r2 ?uz")
    have same: "y1 = x1" "y2 = x2" using ia ib by (auto simp: oscillator_init_def Let_def)
    have ra: "a ! i ! 0 = [x1 ! i, x2 ! i, ?uf ! i ! 0]"
      using oscillator_recorded [OF sh(1,2) uf T(2) i pa [unfolded ia]
          a [unfolded oscillator_prefix_full] T(2)] by simp
    have rb: "b ! i ! 0 = [x1 ! i, x2 ! i, ?uz ! i ! 0]"
      using oscillator_recorded [OF sh(1,2) uz T(2) i pb [unfolded ib]
          b [unfolded oscillator_prefix_full] T(2)] same by simp
    show ?thesis using ra rb by simp
  qed
  then show ?thesis using ga gb by simp
qed

theorem same_initial_conditions_witness:
  "\<exists>a b. fst (generate_data cycle_torch (0, 1) (0, 1) 2 1 1 3 (1 / 10) 0 world0) = Inr a
     \<and> fst (generate_data_unforced cycle_torch (0, 1) (0, 1) 2 1 1 3 (1 / 10) 0 world0) = Inr b
     \<and> a ! 1 ! 0 ! 0 = b ! 1 ! 0 ! 0 \<and> a ! 1 ! 0 ! 1 = b ! 1 ! 0 ! 1
     \<and> b ! 1 ! 0 ! 0 = 1 / 4 \<and> b ! 1 ! 0 ! 1 = 3 / 4"
proof -
  obtain a b where
    a: "fst (generate_data cycle_torch (0, 1) (0, 1) 2 1 1 3 (1 / 10) 0 world0) = Inr a"
    and b: "fst (generate_data_unforced cycle_torch (0, 1) (0, 1) 2 1 1 3 (1 / 10) 0 world0) = Inr b"
    and same: "\<forall>i<nat 2. a ! i ! 0 ! 0 = b ! i ! 0 ! 0 \<and> a ! i ! 0 ! 1 = b ! i ! 0 ! 1"
    using same_initial_conditions [of 0 2 3 cycle_torch "(0, 1)" "(0, 1)" 1 1 "1 / 10" world0 world0]
    by (auto simp: seed_ok_def)
  have "b ! 1 ! 0 ! 0 = 1 / 4 \<and> b ! 1 ! 0 ! 1 = 3 / 4"
    using b unfolding cycle_unforced_run by auto
  then show ?thesis using a b same by auto
qed

text \<open>
  C1, as amended. In the scenario \<open>x1range = x2range = (0, 0)\<close>, \<open>numICs = 1\<close>,
  \<open>mu = lam = 0\<close>, \<open>T = 5\<close>, \<open>dt = 0.1\<close>, \<open>seed = 0\<close> the buffer has the shape
  \<open>[1, 5, 3]\<close>. With \<open>a, b, c0, ..., c4\<close> the first seven draws after seeding, its control
  column is \<open>c0 - 0.5, ..., c4 - 0.5\<close>, each in \<open>[-0.5, 0.5)\<close>; its \<open>x2\<close> column is zero at
  every step; its \<open>x1\<close> column is \<open>0\<close> at step 0 and then accumulates \<open>dt\<close> times the
  controls \<open>u[4], u[0], u[1], u[2]\<close>.
\<close>

theorem zero_range_scenario:
  assumes "fill (uniform P) 7 (seeded P 0) = ([a, b, c0, c1, c2, c3, c4], g)"
    and "\<forall>s. 0 \<le> fst (uniform P s) \<and> fst (uniform P s) < 1"
  shows "generate_data P (0, 0) (0, 0) 1 0 0 5 (1 / 10) 0 w =
      (Inr [[[0, 0, c0 - 1 / 2],
             [(c4 - 1 / 2) / 10, 0, c1 - 1 / 2],
             [(c4 - 1 / 2) / 10 + (c0 - 1 / 2) / 10, 0, c2 - 1 / 2],
             [(c4 - 1 / 2) / 10 + (c0 - 1 / 2) / 10 + (c1 - 1 / 2) / 10, 0, c3 - 1 / 2],
             [(c4 - 1 / 2) / 10 + (c0 - 1 / 2) / 10 + (c1 - 1 / 2) / 10 + (c2 - 1 / 2) / 10, 0,
              c4 - 1 / 2]]],
       w\<lparr>generator := g\<rparr>)
    \<and> list_all (\<lambda>c. - (1 / 2) \<le> c - 1 / 2 \<and> c - 1 / 2 < 1 / 2) [c0, c1, c2, c3, c4]"
proof -
  have "list_all (\<lambda>c. 0 \<le> c \<and> c < 1) (fst (fill (uniform P) 7 (seeded P 0)))"
    using assms(2) by (intro fill_list_all) simp
  then have "list_all (\<lambda>c. - (1 / 2) \<le> c - 1 / 2 \<and> c - 1 / 2 < 1 / 2) [c0, c1, c2, c3, c4]"
    unfolding assms(1) by simp
  then show ?thesis using zero_range_run [OF assms(1)] by simp
qed

theorem zero_range_scenario_witness:
  "generate_data torch_seed0 (0, 0) (0, 0) 1 0 0 5 (1 / 10) 0 world0 =
      (Inr [[[0, 0, - (823 / 2000)],
             [- (99 / 100000), 0, - (46 / 125)],
             [- (4214 / 100000), 0, - (963 / 5000)],
             [- (7894 / 100000), 0, 1341 / 10000],
             [- (9820 / 100000), 0, - (99 / 10000)]]],
       \<lparr>generator = 7, stdout = []\<rparr>)"
  using zero_range_scenario [OF torch_seed0_draws, of world0] torch_seed0_range
  by (simp add: world0_def)

text \<open>
  The claim as stated fails: with torch's draws for seed 0 the \<open>x1\<close> column is not zero
  from step 1 on, because the control enters \<open>dx1\<close> also when \<open>mu = 0\<close>.
\<close>

theorem zero_range_x1_drifts:
  "fst (generate_data torch_seed0 (0, 0) (0, 0) 1 0 0 5 (1 / 10) 0 world0) =
      Inr [[[0, 0, - (823 / 2000)],
             [- (99 / 100000), 0, - (46 / 125)],
             [- (4214 / 100000), 0, - (963 / 5000)],
             [- (7894 / 100000), 0, 1341 / 10000],
             [- (9820 / 100000), 0, - (99 / 10000)]]]
   \<and> [[[0, 0, - (823 / 2000)],
             [- (99 / 100000), 0, - (46 / 125)],
             [- (4214 / 100000), 0, - (963 / 5000)],
             [- (7894 / 100000), 0, 1341 / 10000],
             [- (9820 / 100000), 0, - (99 / 10000 :: real)]]] ! 0 ! 1 ! 0 \<noteq> 0"
  using zero_range_run [OF torch_seed0_draws, of world0] by simp

text \<open>
  C2. In \<^verbatim>\<open>generate_data\<close>, for every trajectory \<open>i\<close> and every time step \<open>t\<close> from
  \<open>0\<close> to \<open>T - 1\<close>: the buffer holds at step \<open>t\<close> the values \<open>x1\<close>, \<open>x2\<close> the loop has on
  entry to iteration \<open>t\<close> and the control \<open>u[t]\<close>, and the iteration adds
  \<open>dx1 = dt * mu * x1 + dt * u[t - 1]\<close> to \<open>x1\<close>, where for \<open>t = 0\<close> the index \<open>-1\<close> reads the last
  column \<open>u[T - 1]\<close>, and \<open>dx2 = dt * lam * (x2 - x1\<^sup>2)\<close> to \<open>x2\<close>; the updated values are the
  ones recorded at step \<open>t + 1\<close> when there is one.
\<close>

theorem oscillator_increments:
  assumes run: "fst (generate_data P x1range x2range numICs mu lam T dt seed w) = Inr xuk"
    and d: "oscillator_draws P numICs T seed = (r1, r2, r3, g)"
    and u: "u = map (map (\<lambda>r. r - 0.5)) r3"
    and i: "i < nat numICs" and t: "t < nat T"
  shows "\<exists>x1 x2 b x1' x2' b'.
      oscillator_prefix x1range x2range numICs mu lam T dt r1 r2 u t = Inr (x1, x2, b)
    \<and> oscillator_prefix x1range x2range numICs mu lam T dt r1 r2 u (Suc t) = Inr (x1', x2', b')
    \<and> xuk ! i ! t = [x1 ! i, x2 ! i, u ! i ! t]
    \<and> x1' ! i = x1 ! i + (dt * mu * x1 ! i + dt * u ! i ! (if t = 0 then nat T - 1 else t - 1))
    \<and> x2' ! i = x2 ! i + dt * lam * (x2 ! i - (x1 ! i)\<^sup>2)
    \<and> (Suc t < nat T \<longrightarrow> xuk ! i ! Suc t = [x1' ! i, x2' ! i, u ! i ! Suc t])"
proof -
  have ok: "seed_ok seed" "0 \<le> numICs" "0 \<le> T" using generate_data_Inr [OF run] by simp_all
  note sh = oscillator_draws_shape [OF d]
  have us: "shaped2 (nat numICs) (nat T) u" unfolding u using sh(3) by (rule shaped2_map)
  obtain x1e x2e b where o: "oscillator x1range x2range numICs mu lam T dt r1 r2 u = Inr (x1e, x2e, b)"
    and gd: "generate_data P x1range x2range numICs mu lam T dt seed w = (Inr b, w\<lparr>generator := g\<rparr>)"
    using generate_data_run [OF ok d, of x1range x2range mu lam dt w] unfolding u by blast
  have b: "b = xuk" using gd run by simp
  show ?thesis
    using oscillator_steps [OF sh(1,2) us t i, of x1range x2range mu lam dt] o unfolding b
    by (auto split: if_splits)
qed

theorem oscillator_increments_witness:
  "fst (generate_data cycle_torch (0, 1) (0, 1) 2 1 1 3 (1 / 10) 0 world0) =
     Inr [[[0, 1 / 2, - (1 / 2)], [0, 11 / 20, - (1 / 4)], [- (1 / 20), 121 / 200, 0]],
          [[1 / 4, 3 / 4, 1 / 4], [1 / 4, 131 / 160, - (1 / 2)], [3 / 10, 1431 / 1600, - (1 / 4)]]]
   \<and> (\<exists>x1 x2 b x1' x2' b'.
        oscillator_prefix (0, 1) (0, 1) 2 1 1 3 (1 / 10) [0, 1 / 4] [1 / 2, 3 / 4]
          [[- (1 / 2), - (1 / 4), 0], [1 / 4, - (1 / 2), - (1 / 4)]] 0 = Inr (x1, x2, b)
      \<and> oscillator_prefix (0, 1) (0, 1) 2 1 1 3 (1 / 10) [0, 1 / 4] [1 / 2, 3 / 4]
          [[- (1 / 2), - (1 / 4), 0], [1 / 4, - (1 / 2), - (1 / 4)]] 1 = Inr (x1', x2', b')
      \<and> x1 ! 1 = 1 / 4 \<and> x2 ! 1 = 3 / 4
      \<and> x1' ! 1 = 1 / 4 + (1 / 10 * 1 * (1 / 4) + 1 / 10 * - (1 / 4))
      \<and> x2' ! 1 = 3 / 4 + 1 / 10 * 1 * (3 / 4 - (1 / 4)\<^sup>2))"
  using oscillator_increments [OF cycle_forced_run cycle_draws_2_3 refl, of 1 0]
    cycle_forced_run
  by (auto simp: eval_nat_numeral)

section \<open>Properties of the two-link simulator, of all simulators, and of the splitter\<close>

text \<open>
  C7. In \<^verbatim>\<open>generate_two_link_data\<close>, for every trajectory \<open>i\<close> and every time step \<open>t\<close>:
  the buffer holds at step \<open>t\<close> the state \<open>(q1, q2, dq1, dq2)\<close> on entry to iteration \<open>t\<close>
  and the torques of that step; the iteration first updates the velocity,
  \<open>dq_new = dq_old + ddq * dt\<close>, and then the position with the new velocity,
  \<open>q_new = q_old + dq_new * dt\<close>, where \<open>ddq = M(q)\<^sup>-\<^sup>1 (tau - C - G)\<close> with the closed-form
  inverse over \<open>detM = M11 * M22 - M12 * M21\<close> (\<open>two_link_accel\<close>); the updated state is the
  one recorded at step \<open>t + 1\<close> when there is one.
\<close>

theorem semi_implicit_euler:
  assumes run: "fst (generate_two_link_data P q1_range q2_range dq1_range dq2_range numICs T dt seed
                      tau_max m1 m2 l1 l2 g w) = Inr data"
    and d: "two_link_draws P numICs T seed = (r1, r2, r3, r4, r5, gen)"
    and tau: "tau = map (map (map (\<lambda>r. (r - 0.5) * 2 * tau_max))) r5"
    and i: "i < nat numICs" and t: "t < nat T"
  shows "\<exists>q1 q2 dq1 dq2 b q1' q2' dq1' dq2' b'.
     two_link_prefix q1_range q2_range dq1_range dq2_range numICs T dt m1 m2 l1 l2 g
        r1 r2 r3 r4 tau t = Inr (q1, q2, dq1, dq2, b)
   \<and> two_link_prefix q1_range q2_range dq1_range dq2_range numICs T dt m1 m2 l1 l2 g
        r1 r2 r3 r4 tau (Suc t) = Inr (q1', q2', dq1', dq2', b')
   \<and> data ! i ! t = [q1 ! i, q2 ! i, dq1 ! i, dq2 ! i, tau ! i ! t ! 0, tau ! i ! t ! 1]
   \<and> dq1' ! i = dq1 ! i + fst (two_link_accel m1 m2 l1 l2 g (q1 ! i) (q2 ! i) (dq1 ! i) (dq2 ! i)
                                  (tau ! i ! t ! 0) (tau ! i ! t ! 1)) * dt
   \<and> dq2' ! i = dq2 ! i + snd (two_link_accel m1 m2 l1 l2 g (q1 ! i) (q2 ! i) (dq1 ! i) (dq2 ! i)
                                  (tau ! i ! t ! 0) (tau ! i ! t ! 1)) * dt
   \<and> q1' ! i = q1 ! i + dq1' ! i * dt
   \<and> q2' ! i = q2 ! i + dq2' ! i * dt
   \<and> (Suc t < nat T \<longrightarrow>
        data ! i ! Suc t = [q1' ! i, q2' ! i, dq1' ! i, dq2' ! i, tau ! i ! Suc t ! 0, tau ! i ! Suc t ! 1])"
proof -
  have ok: "seed_ok seed" "0 \<le> numICs" "0 \<le> T" using generate_two_link_data_Inr [OF run] by simp_all
  note sh = two_link_draws_shape [OF d]
  have ts: "shaped3 (nat numICs) (nat T) 2 tau" unfolding tau using sh(5) by (rule shaped3_map)
  obtain q1e q2e dq1e dq2e b where
    o: "two_link_prefix q1_range q2_range dq1_range dq2_range numICs T dt m1 m2 l1 l2 g
          r1 r2 r3 r4 tau (nat T) = Inr (q1e, q2e, dq1e, dq2e, b)"
    and gd: "fst (generate_two_link_data P q1_range q2_range dq1_range dq2_range numICs T dt seed
         tau_max m1 m2 l1 l2 g w) = Inr b"
    using generate_two_link_data_run [OF ok d, of q1_range q2_range dq1_range dq2_range dt m1 m2 l1 l2 g tau_max w]
    unfolding tau by auto
  have b: "b = data" using gd run by simp
  show ?thesis
    using two_link_steps [OF sh(1-4) ts t i, of q1_range q2_range dq1_range dq2_range dt m1 m2 l1 l2 g] o
    unfolding b by auto
qed

theorem semi_implicit_euler_witness:
  "\<exists>data. fst (generate_two_link_data cycle_torch (0, 0) (0, 0) (0, 0) (0, 0) 1 2 (1 / 10) 0
                  1 1 1 1 1 (981 / 100) world0) = Inr data
     \<and> data ! 0 ! 0 = [0, 0, 0, 0, - 1, - (1 / 2)]
     \<and> data ! 0 ! 1 = [- (981 / 10000), 881 / 10000, - (981 / 1000), 881 / 1000, 0, 1 / 2]"
proof -
  let ?tau = "map (map (map (\<lambda>r. (r - 0.5) * 2 * 1))) [[[0, 1 / 4], [1 / 2, 3 / 4 :: real]]]"
  obtain data where run: "fst (generate_two_link_data cycle_torch (0, 0) (0, 0) (0, 0) (0, 0) 1 2 (1 / 10) 0
                  1 1 1 1 1 (981 / 100) world0) = Inr data"
    using generate_two_link_data_run [OF _ _ _ cycle_arm_draws,
        of "(0, 0)" "(0, 0)" "(0, 0)" "(0, 0)" "1 / 10" 1 1 1 1 "981 / 100" 1 world0]
    by (auto simp: seed_ok_def)
  obtain q1 q2 dq1 dq2 b q1' q2' dq1' dq2' b' where
    p0: "two_link_prefix (0, 0) (0, 0) (0, 0) (0, 0) 1 2 (1 / 10) 1 1 1 1 (981 / 100)
           [0] [1 / 4] [1 / 2] [3 / 4] ?tau 0 = Inr (q1, q2, dq1, dq2, b)"
    and rec: "data ! 0 ! 0 = [q1 ! 0, q2 ! 0, dq1 ! 0, dq2 ! 0, ?tau ! 0 ! 0 ! 0, ?tau ! 0 ! 0 ! 1]"
    and inc: "dq1' ! 0 = dq1 ! 0 + fst (two_link_accel 1 1 1 1 (981 / 100) (q1 ! 0) (q2 ! 0) (dq1 ! 0) (dq2 ! 0)
                                  (?tau ! 0 ! 0 ! 0) (?tau ! 0 ! 0 ! 1)) * (1 / 10)"
      "dq2' ! 0 = dq2 ! 0 + snd (two_link_accel 1 1 1 1 (981 / 100) (q1 ! 0) (q2 ! 0) (dq1 ! 0) (dq2 ! 0)
                                  (?tau ! 0 ! 0 ! 0) (?tau ! 0 ! 0 ! 1)) * (1 / 10)"
      "q1' ! 0 = q1 ! 0 + dq1' ! 0 * (1 / 10)"
      "q2' ! 0 = q2 ! 0 + dq2' ! 0 * (1 / 10)"
    and nxt: "data ! 0 ! Suc 0 = [q1' ! 0, q2' ! 0, dq1' ! 0, dq2' ! 0, ?tau ! 0 ! Suc 0 ! 0, ?tau ! 0 ! Suc 0 ! 1]"
    using semi_implicit_euler [OF run cycle_arm_draws refl, of 0 0] by auto
  have z: "q1 = [0]" "q2 = [0]" "dq1 = [0]" "dq2 = [0]"
    using p0 by (auto simp: two_link_prefix_def two_link_init_def scale_to_range_zero Let_def)
  have "data ! 0 ! 0 = [0, 0, 0, 0, - 1, - (1 / 2)]"
    using rec unfolding z by simp
  moreover have "data ! 0 ! 1 = [- (981 / 10000), 881 / 10000, - (981 / 1000), 881 / 1000, 0, 1 / 2]"
    using nxt inc unfolding z by (simp add: accel_at_rest)
  ultimately show ?thesis using run by blast
qed

text \<open>
  C8, as amended. The initial state is sampled in single precision. For a generator whose
  samples lie in \<open>[0, 1)\<close> and a range given as a pair \<open>(min, max)\<close>, the state value that
  \<^verbatim>\<open>generate_data\<close> and \<^verbatim>\<open>generate_two_link_data\<close> record at time step 0 of trajectory \<open>i\<close>
  is \<open>fl(fl(c * r) + fl(min))\<close> (\<open>sample32\<close>), where \<open>r\<close> is the sample drawn for that state
  and trajectory, \<open>c = fl(max - min)\<close> is the width computed in double precision and then
  converted, and \<open>fl\<close> rounds to the nearest single-precision number. For \<open>min \<le> max\<close> of
  magnitude at most \<open>2\<^sup>1\<^sup>2\<^sup>6\<close> (so that no operation overflows) the value lies between
  \<open>fl(min)\<close> and \<open>fl(c + fl(min))\<close> (\<open>range32\<close>), which are \<open>min\<close> and \<open>max\<close> up to rounding;
  it lies in \<open>[min, max]\<close> itself when \<open>min\<close>, \<open>max\<close> and \<open>max - min\<close> are single-precision
  numbers (\<open>float32_range\<close>).
\<close>

theorem initial_state_sampled:
  assumes u: "\<forall>s. 0 \<le> fst (uniform P s) \<and> fst (uniform P s) < 1"
    and i: "i < nat numICs" and T: "0 < T"
    and od: "oscillator_draws P numICs T seed = (r1, r2, r3, gen)"
    and td: "two_link_draws P numICs T seed = (s1, s2, s3, s4, s5, gen')"
  shows "(fst (generate_data P x1range x2range numICs mu lam T dt seed w) = Inr xuk
          \<longrightarrow> 0 \<le> r1 ! i \<and> r1 ! i < 1 \<and> 0 \<le> r2 ! i \<and> r2 ! i < 1
            \<and> xuk ! i ! 0 ! 0 = sample32 x1range (r1 ! i)
            \<and> xuk ! i ! 0 ! 1 = sample32 x2range (r2 ! i)
            \<and> (fst x1range \<le> snd x1range \<and> moderate x1range
                 \<longrightarrow> in_range (range32 x1range) (xuk ! i ! 0 ! 0)
                   \<and> (float32_range x1range \<longrightarrow> in_range x1range (xuk ! i ! 0 ! 0)))
            \<and> (fst x2range \<le> snd x2range \<and> moderate x2range
                 \<longrightarrow> in_range (range32 x2range) (xuk ! i ! 0 ! 1)
                   \<and> (float32_range x2range \<longrightarrow> in_range x2range (xuk ! i ! 0 ! 1))))
       \<and> (fst (generate_two_link_data P q1_range q2_range dq1_range dq2_range numICs T dt seed
                 tau_max m1 m2 l1 l2 g w') = Inr data
          \<longrightarrow> 0 \<le> s1 ! i \<and> s1 ! i < 1 \<and> 0 \<le> s2 ! i \<and> s2 ! i < 1
            \<and> 0 \<le> s3 ! i \<and> s3 ! i < 1 \<and> 0 \<le> s4 ! i \<and> s4 ! i < 1
            \<and> data ! i ! 0 ! 0 = sample32 q1_range (s1 ! i)
            \<and> data ! i ! 0 ! 1 = sample32 q2_range (s2 ! i)
            \<and> data ! i ! 0 ! 2 = sample32 dq1_range (s3 ! i)
            \<and> data ! i ! 0 ! 3 = sample32 dq2_range (s4 ! i)
            \<and> (fst q1_range \<le> snd q1_range \<and> moderate q1_range
                 \<longrightarrow> in_range (range32 q1_range) (data ! i ! 0 ! 0)
                   \<and> (float32_range q1_range \<longrightarrow> in_range q1_range (data ! i ! 0 ! 0)))
            \<and> (fst q2_range \<le> snd q2_range \<and> moderate q2_range
                 \<longrightarrow> in_range (range32 q2_range) (data ! i ! 0 ! 1)
                   \<and> (float32_range q2_range \<longrightarrow> in_range q2_range (data ! i ! 0 ! 1)))
            \<and> (fst dq1_range \<le> snd dq1_range \<and> moderate dq1_range
                 \<longrightarrow> in_range (range32 dq1_range) (data ! i ! 0 ! 2)
                   \<and> (float32_range dq1_range \<longrightarrow> in_range dq1_range (data ! i ! 0 ! 2)))
            \<and> (fst dq2_range \<le> snd dq2_range \<and> moderate dq2_range
                 \<longrightarrow> in_range (range32 dq2_range) (data ! i ! 0 ! 3)
                   \<and> (float32_range dq2_range \<longrightarrow> in_range dq2_range (data ! i ! 0 ! 3))))"
proof (intro conjI impI)
  assume run: "fst (generate_data P x1range x2range numICs mu lam T dt seed w) = Inr xuk"
  note sh = oscillator_draws_shape [OF od]
  note un = oscillator_draws_unit [OF u od i]
  note init = generate_data_initial [OF run od i T]
  have l: "i < length r1" "i < length r2" using sh(1,2) i by simp_all
  show "0 \<le> r1 ! i" "r1 ! i < 1" "0 \<le> r2 ! i" "r2 ! i < 1" using un by simp_all
  show v1: "xuk ! i ! 0 ! 0 = sample32 x1range (r1 ! i)"
    unfolding init using l(1) by (rule nth_scale_to_range)
  show v2: "xuk ! i ! 0 ! 1 = sample32 x2range (r2 ! i)"
    unfolding init using l(2) by (rule nth_scale_to_range)
  show "in_range (range32 x1range) (xuk ! i ! 0 ! 0)"
    if "fst x1range \<le> snd x1range \<and> moderate x1range"
    unfolding v1 using that un(1) by (intro sample32_in_range32) simp_all
  show "in_range x1range (xuk ! i ! 0 ! 0)"
    if "fst x1range \<le> snd x1range \<and> moderate x1range" and "float32_range x1range"
    unfolding v1 using that un(1) sample32_in_range [of x1range] by simp
  show "in_range (range32 x2range) (xuk ! i ! 0 ! 1)"
    if "fst x2range \<le> snd x2range \<and> moderate x2range"
    unfolding v2 using that un(2) by (intro sample32_in_range32) simp_all
  show "in_range x2range (xuk ! i ! 0 ! 1)"
    if "fst x2range \<le> snd x2range \<and> moderate x2range" and "float32_range x2range"
    unfolding v2 using that un(2) sample32_in_range [of x2range] by simp
next
  assume run: "fst (generate_two_link_data P q1_range q2_range dq1_range dq2_range numICs T dt seed
                 tau_max m1 m2 l1 l2 g w') = Inr data"
  note sh = two_link_draws_shape [OF td]
  note un = two_link_draws_unit [OF u td i]
  note init = generate_two_link_data_initial [OF run td i T]
  have l: "i < length s1" "i < length s2" "i < length s3" "i < length s4"
    using sh(1-4) i by simp_all
  show "0 \<le> s1 ! i" "s1 ! i < 1" "0 \<le> s2 ! i" "s2 ! i < 1"
    "0 \<le> s3 ! i" "s3 ! i < 1" "0 \<le> s4 ! i" "s4 ! i < 1" using un by simp_all
  show v1: "data ! i ! 0 ! 0 = sample32 q1_range (s1 ! i)"
    unfolding init using l(1) by (rule nth_scale_to_range)
  show v2: "data ! i ! 0 ! 1 = sample32 q2_range (s2 ! i)"
    unfolding init using l(2) by (rule nth_scale_to_range)
  show v3: "data ! i ! 0 ! 2 = sample32 dq1_range (s3 ! i)"
    unfolding init using l(3) by (rule nth_scale_to_range)
  show v4: "data ! i ! 0 ! 3 = sample32 dq2_range (s4 ! i)"
    unfolding init using l(4) by (rule nth_scale_to_range)
  show "in_range (range32 q1_range) (data ! i ! 0 ! 0)"
    if "fst q1_range \<le> snd q1_range \<and> moderate q1_range"
    unfolding v1 using that un(1) by (intro sample32_in_range32) simp_all
  show "in_range q1_range (data ! i ! 0 ! 0)"
    if "fst q1_range \<le> snd q1_range \<and> moderate q1_range" and "float32_range q1_range"
    unfolding v1 using that un(1) sample32_in_range [of q1_range] by simp
  show "in_range (range32 q2_range) (data ! i ! 0 ! 1)"
    if "fst q2_range \<le> snd q2_range \<and> moderate q2_range"
    unfolding v2 using that un(2) by (intro sample32_in_range32) simp_all
  show "in_range q2_range (data ! i ! 0 ! 1)"
    if "fst q2_range \<le> snd q2_range \<and> moderate q2_range" and "float32_range q2_range"
    unfolding v2 using that un(2) sample32_in_range [of q2_range] by simp
  show "in_range (range32 dq1_range) (data ! i ! 0 ! 2)"
    if "fst dq1_range \<le> snd dq1_range \<and> moderate dq1_range"
    unfolding v3 using that un(3) by (intro sample32_in_range32) simp_all
  show "in_range dq1_range (data ! i ! 0 ! 2)"
    if "fst dq1_range \<le> snd dq1_range \<and> moderate dq1_range" and "float32_range dq1_range"
    unfolding v3 using that un(3) sample32_in_range [of dq1_range] by simp
  show "in_range (range32 dq2_range) (data ! i ! 0 ! 3)"
    if "fst dq2_range \<le> snd dq2_range \<and> moderate dq2_range"
    unfolding v4 using that un(4) by (intro sample32_in_range32) simp_all
  show "in_range dq2_range (data ! i ! 0 ! 3)"
    if "fst dq2_range \<le> snd dq2_range \<and> moderate dq2_range" and "float32_range dq2_range"
    unfolding v4 using that un(4) sample32_in_range [of dq2_range] by simp
qed

theorem initial_state_sampled_witness:
  "\<exists>data. fst (generate_data cycle_torch (0, 1) (0, 1) 2 1 1 3 (1 / 10) 0 world0) =
       Inr [[[0, 1 / 2, - (1 / 2)], [0, 11 / 20, - (1 / 4)], [- (1 / 20), 121 / 200, 0]],
            [[1 / 4, 3 / 4, 1 / 4], [1 / 4, 131 / 160, - (1 / 2)], [3 / 10, 1431 / 1600, - (1 / 4)]]]
     \<and> oscillator_draws cycle_torch 2 3 0 =
         ([0, 1 / 4], [1 / 2, 3 / 4], [[0, 1 / 4, 1 / 2], [3 / 4, 0, 1 / 4]], 10)
     \<and> sample32 (0, 1) (1 / 4) = 1 / 4 \<and> sample32 (0, 1) (3 / 4) = 3 / 4
     \<and> moderate (0, 1) \<and> float32_range (0, 1) \<and> range32 (0, 1) = (0, 1)
     \<and> in_range (0, 1) (1 / 4) \<and> in_range (0, 1) (3 / 4)
     \<and> fst (generate_two_link_data cycle_torch (0, 1) (0, 1) (0, 1) (0, 1) 2 3 (1 / 10) 0
                  1 1 1 1 1 (981 / 100) world0) = Inr data
     \<and> data ! 1 ! 0 ! 0 = 1 / 4 \<and> data ! 1 ! 0 ! 1 = 3 / 4
     \<and> data ! 1 ! 0 ! 2 = 1 / 4 \<and> data ! 1 ! 0 ! 3 = 3 / 4
     \<and> in_range (0, 1) (data ! 1 ! 0 ! 0) \<and> in_range (0, 1) (data ! 1 ! 0 ! 1)
     \<and> in_range (0, 1) (data ! 1 ! 0 ! 2) \<and> in_range (0, 1) (data ! 1 ! 0 ! 3)"
proof -
  obtain data where run: "fst (generate_two_link_data cycle_torch (0, 1) (0, 1) (0, 1) (0, 1) 2 3 (1 / 10) 0
                  1 1 1 1 1 (981 / 100) world0) = Inr data"
    using generate_two_link_data_run [OF _ _ _ cycle_arm_draws_2_3,
        of "(0, 1)" "(0, 1)" "(0, 1)" "(0, 1)" "1 / 10" 1 1 1 1 "981 / 100" 1 world0]
    by (auto simp: seed_ok_def)
  have m: "moderate (0, 1)" by (simp add: moderate_def)
  show ?thesis
    using initial_state_sampled [OF cycle_torch_unit _ _ cycle_draws_2_3 cycle_arm_draws_2_3,
        of 1 "(0, 1)" "(0, 1)" 1 1 "1 / 10" world0
        "[[[0, 1 / 2, - (1 / 2)], [0, 11 / 20, - (1 / 4)], [- (1 / 20), 121 / 200, 0]],
            [[1 / 4, 3 / 4, 1 / 4], [1 / 4, 131 / 160, - (1 / 2)], [3 / 10, 1431 / 1600, - (1 / 4)]]]"
        "(0, 1)" "(0, 1)" "(0, 1)" "(0, 1)" 1 1 1 1 1 "981 / 100" world0 data]
      cycle_forced_run run m float32_range_unit cycle_draws_2_3
    by (auto simp: sample32_unit range32_unit eval_nat_numeral)
qed

text \<open>
  The claim as stated fails: the recorded value can leave \<open>[min, max]\<close>. With the range
  \<open>(0.7, 0.7)\<close> (\<open>0.7\<close> being the double nearest to 7/10) step 0 records
  \<open>fl(0.7) = 11744051 / 2\<^sup>2\<^sup>4\<close>, whatever the sample, and with the range \<open>(0.7, 1)\<close> it does
  so for a sample of 0; that number is below the double \<open>0.7\<close>.
\<close>

theorem initial_state_below_range:
  "fst (generate_data cycle_torch (to_double 0.7, to_double 0.7) (0, 1) 1 1 1 1 (1 / 10) 0 world0) =
     Inr [[[11744051 / 2 ^ 24, 1 / 4, 0]]]
 \<and> \<not> in_range (to_double 0.7, to_double 0.7) (11744051 / 2 ^ 24)
 \<and> fst (generate_data cycle_torch (to_double 0.7, 1) (0, 1) 1 1 1 1 (1 / 10) 0 world0) =
     Inr [[[11744051 / 2 ^ 24, 1 / 4, 0]]]
 \<and> \<not> in_range (to_double 0.7, 1) (11744051 / 2 ^ 24)
 \<and> to_double 0.7 = 3152519739159347 / 2 ^ 52"
  using low_end_run point_run by (simp add: in_range_def double_seven_tenths)

text \<open>
  C5. For each of \<^verbatim>\<open>generate_data\<close>, \<^verbatim>\<open>generate_data_unforced\<close> and
  \<^verbatim>\<open>generate_two_link_data\<close>: two calls with the same parameters and the same seed give
  the caller the same result (the same buffer, or the same exception), whatever the
  state of the generator and of standard output before each call.
\<close>

theorem simulators_deterministic:
  "fst (generate_data P x1range x2range numICs mu lam T dt seed w) =
   fst (generate_data P x1range x2range numICs mu lam T dt seed w')
 \<and> fst (generate_data_unforced P x1range x2range numICs mu lam T dt seed w) =
   fst (generate_data_unforced P x1range x2range numICs mu lam T dt seed w')
 \<and> fst (generate_two_link_data P q1_range q2_range dq1_range dq2_range numICs T dt seed
       tau_max m1 m2 l1 l2 g w) =
   fst (generate_two_link_data P q1_range q2_range dq1_range dq2_range numICs T dt seed
       tau_max m1 m2 l1 l2 g w')"
  using generate_data_deterministic [of P x1range x2range numICs mu lam T dt seed w w']
    generate_data_unforced_deterministic [of P x1range x2range numICs mu lam T dt seed w w']
    generate_two_link_data_deterministic
      [of P q1_range q2_range dq1_range dq2_range numICs T dt seed tau_max m1 m2 l1 l2 g w w']
  by simp

theorem simulators_deterministic_witness:
  "fst (generate_data cycle_torch (0, 1) (0, 1) 2 1 1 3 (1 / 10) 0 \<lparr>generator = 5, stdout = [''x'']\<rparr>) =
     Inr [[[0, 1 / 2, - (1 / 2)], [0, 11 / 20, - (1 / 4)], [- (1 / 20), 121 / 200, 0]],
          [[1 / 4, 3 / 4, 1 / 4], [1 / 4, 131 / 160, - (1 / 2)], [3 / 10, 1431 / 1600, - (1 / 4)]]]
   \<and> fst (generate_data_unforced cycle_torch (0, 1) (0, 1) 2 1 1 3 (1 / 10) 0 \<lparr>generator = 5, stdout = [''x'']\<rparr>) =
     Inr [[[0, 1 / 2, 0], [0, 11 / 20, 0], [0, 121 / 200, 0]],
          [[1 / 4, 3 / 4, 0], [11 / 40, 131 / 160, 0], [121 / 400, 14289 / 16000, 0]]]"
  using simulators_deterministic [of cycle_torch "(0, 1)" "(0, 1)" 2 1 1 3 "1 / 10" 0
      "\<lparr>generator = 5, stdout = [''x'']\<rparr>" world0]
    cycle_forced_run cycle_unforced_run
  by simp

text \<open>
  C3, as amended. A call of \<^verbatim>\<open>generate_data\<close> or \<^verbatim>\<open>generate_data_unforced\<close> writes
  nothing to standard output; a call of \<^verbatim>\<open>generate_two_link_data\<close> writes exactly one
  line, \<open>Computed Inertia: I1 = ..., I2 = ...\<close>, once its seed is accepted. Apart from that
  a call changes only the generator, and since it seeds the generator first, the state
  it leaves does not depend on the state before the call.
\<close>

theorem simulator_effects:
  "stdout (snd (generate_data P x1range x2range numICs mu lam T dt seed w)) = stdout w
 \<and> stdout (snd (generate_data_unforced P x1range x2range numICs mu lam T dt seed w)) = stdout w
 \<and> stdout (snd (generate_two_link_data P q1_range q2_range dq1_range dq2_range numICs T dt seed
       tau_max m1 m2 l1 l2 g w)) =
     (if seed_ok seed then stdout w @ [inertia_line m1 m2 l1 l2] else stdout w)
 \<and> (seed_ok seed \<longrightarrow>
      generator (snd (generate_data P x1range x2range numICs mu lam T dt seed w)) =
      generator (snd (generate_data P x1range x2range numICs mu lam T dt seed w'))
    \<and> generator (snd (generate_data_unforced P x1range x2range numICs mu lam T dt seed w)) =
      generator (snd (generate_data_unforced P x1range x2range numICs mu lam T dt seed w'))
    \<and> generator (snd (generate_two_link_data P q1_range q2_range dq1_range dq2_range numICs T dt seed
         tau_max m1 m2 l1 l2 g w)) =
      generator (snd (generate_two_link_data P q1_range q2_range dq1_range dq2_range numICs T dt seed
         tau_max m1 m2 l1 l2 g w')))"
  using generate_data_stdout [of P x1range x2range numICs mu lam T dt seed w]
    generate_data_unforced_stdout [of P x1range x2range numICs mu lam T dt seed w]
    generate_two_link_data_stdout [of P q1_range q2_range dq1_range dq2_range numICs T dt seed
       tau_max m1 m2 l1 l2 g w]
    generate_data_generator [of seed P x1range x2range numICs mu lam T dt w w']
    generate_data_unforced_generator [of seed P x1range x2range numICs mu lam T dt w w']
    generate_two_link_data_generator [of seed P q1_range q2_range dq1_range dq2_range numICs T dt
       tau_max m1 m2 l1 l2 g w w']
  by simp

theorem simulator_effects_witness:
  "stdout (snd (generate_data cycle_torch (0, 1) (0, 1) 2 1 1 3 (1 / 10) 0 world0)) = []
 \<and> stdout (snd (generate_data_unforced cycle_torch (0, 1) (0, 1) 2 1 1 3 (1 / 10) 0 world0)) = []
 \<and> stdout (snd (generate_two_link_data cycle_torch (0, 0) (0, 0) (0, 0) (0, 0) 2 3 (1 / 10) 0
                  1 1 1 1 1 (981 / 100) world0))
     = [''Computed Inertia: I1 = 0.2500, I2 = 0.2500'']
 \<and> generator (snd (generate_data cycle_torch (0, 1) (0, 1) 2 1 1 3 (1 / 10) 0 world0)) =
   generator (snd (generate_data cycle_torch (0, 1) (0, 1) 2 1 1 3 (1 / 10) 0
                     \<lparr>generator = 5, stdout = [''x'']\<rparr>))"
  using simulator_effects [of cycle_torch "(0, 1)" "(0, 1)" 2 1 1 3 "1 / 10" 0 world0
      "(0, 0)" "(0, 0)" "(0, 0)" "(0, 0)" 1 1 1 1 1 "981 / 100" "\<lparr>generator = 5, stdout = [''x'']\<rparr>"]
  by (simp add: seed_ok_def inertia_line_unit world0_def)

text \<open>
  The claim as stated fails for \<^verbatim>\<open>generate_two_link_data\<close>: with the default masses
  and lengths the call prints a line.
\<close>

theorem two_link_prints_line:
  "stdout (snd (generate_two_link_data cycle_torch (0, 0) (0, 0) (0, 0) (0, 0) 1 2 (1 / 10) 0
                  1 1 1 1 1 (981 / 100) world0))
     = [''Computed Inertia: I1 = 0.2500, I2 = 0.2500'']"
  using generate_two_link_data_stdout [of cycle_torch "(0, 0)" "(0, 0)" "(0, 0)" "(0, 0)" 1 2 "1 / 10" 0
       1 1 1 1 1 "981 / 100" world0]
  by (simp add: seed_ok_def inertia_line_unit world0_def)

text \<open>
  C6. For \<open>0 \<le> numICs < 2\<^sup>1\<^sup>0\<^sup>2\<^sup>3\<close> and \<open>T \<ge> 0\<close>, \<^verbatim>\<open>DataGenerator\<close> calls \<^verbatim>\<open>generate_data\<close>
  three times, each call starting from the world the one before left: with seed 1 and
  \<open>round(0.1 * numICs)\<close> trajectories (test), with seed 2 and \<open>round(0.2 * numICs)\<close>
  (validation), with seed 3 and \<open>round(0.7 * numICs)\<close> (train), where each product is the
  double-precision product of the double constant and \<open>float(numICs)\<close>, and \<open>round\<close> gives
  the nearest integer, the even one at a tie. It returns the triple \<open>(train, test, val)\<close>.
  For \<open>numICs = 100\<close> the trajectory counts are 70, 10 and 20 in that order; for
  \<open>numICs = 45\<close> they are 31, 4 and 9 (the double product \<open>0.7 * 45\<close> is just below 31.5,
  and \<open>0.1 * 45\<close> is the tie 4.5).
\<close>

theorem data_generator_split:
  assumes "0 \<le> numICs" and "numICs < 2 ^ 1023" and "0 \<le> T"
  shows "\<exists>p1 p2 p3 test val train w1 w2 w3.
      float_mul_int (to_double 0.1) numICs = Inr p1 \<and> p1 = to_double (to_double 0.1 * to_double (of_int numICs))
    \<and> float_mul_int (to_double 0.2) numICs = Inr p2 \<and> p2 = to_double (to_double 0.2 * to_double (of_int numICs))
    \<and> float_mul_int (to_double 0.7) numICs = Inr p3 \<and> p3 = to_double (to_double 0.7 * to_double (of_int numICs))
    \<and> generate_data P x1range x2range (py_round p1) mu lam T dt 1 w = (Inr test, w1)
    \<and> generate_data P x1range x2range (py_round p2) mu lam T dt 2 w1 = (Inr val, w2)
    \<and> generate_data P x1range x2range (py_round p3) mu lam T dt 3 w2 = (Inr train, w3)
    \<and> DataGenerator P x1range x2range numICs mu lam T dt w = (Inr (train, test, val), w3)
    \<and> nearest_even p1 (int (length test))
    \<and> nearest_even p2 (int (length val))
    \<and> nearest_even p3 (int (length train))
    \<and> (numICs = 100 \<longrightarrow> length train = 70 \<and> length test = 10 \<and> length val = 20)
    \<and> (numICs = 45 \<longrightarrow> length train = 31 \<and> length test = 4 \<and> length val = 9)"
proof -
  define d where "d = to_double (of_int numICs)"
  define p1 where "p1 = to_double (to_double 0.1 * d)"
  define p2 where "p2 = to_double (to_double 0.2 * d)"
  define p3 where "p3 = to_double (to_double 0.7 * d)"
  have d: "0 \<le> d" unfolding d_def using assms(1) by (intro to_double_nonneg) simp
  have c: "0 \<le> to_double 0.1" "0 \<le> to_double 0.2" "0 \<le> to_double 0.7"
    by (intro to_double_nonneg; simp)+
  have p: "0 \<le> p1" "0 \<le> p2" "0 \<le> p3"
    unfolding p1_def p2_def p3_def using c d by (intro to_double_nonneg mult_nonneg_nonneg; simp)+
  have n: "0 \<le> py_round p1" "0 \<le> py_round p2" "0 \<le> py_round p3"
    using p by (simp_all add: py_round_nonneg)
  have f: "float_mul_int (to_double 0.1) numICs = Inr p1" "float_mul_int (to_double 0.2) numICs = Inr p2"
    "float_mul_int (to_double 0.7) numICs = Inr p3"
    unfolding p1_def p2_def p3_def d_def by (simp_all add: float_mul_int_ok [OF assms(1,2)])
  have s: "seed_ok 1" "seed_ok 2" "seed_ok 3" by (simp_all add: seed_ok_def)
  have call: "\<exists>xuk w'. generate_data P x1range x2range k mu lam T dt seed v = (Inr xuk, w')
                \<and> int (length xuk) = k"
    if a: "seed_ok seed" "0 \<le> k" for k seed v
  proof -
    obtain xuk where "fst (generate_data P x1range x2range k mu lam T dt seed v) = Inr xuk"
      and "shaped3 (nat k) (nat T) 3 xuk"
      using generate_data_returns [OF a assms(3)] by blast
    then show ?thesis using a(2)
      by (cases "generate_data P x1range x2range k mu lam T dt seed v") (auto simp: shaped3_length)
  qed
  obtain test w1 where
    t: "generate_data P x1range x2range (py_round p1) mu lam T dt 1 w = (Inr test, w1)"
    "int (length test) = py_round p1"
    using call [OF s(1) n(1)] by blast
  obtain val w2 where
    v: "generate_data P x1range x2range (py_round p2) mu lam T dt 2 w1 = (Inr val, w2)"
    "int (length val) = py_round p2"
    using call [OF s(2) n(2)] by blast
  obtain train w3 where
    r: "generate_data P x1range x2range (py_round p3) mu lam T dt 3 w2 = (Inr train, w3)"
    "int (length train) = py_round p3"
    using call [OF s(3) n(3)] by blast
  have dg: "DataGenerator P x1range x2range numICs mu lam T dt w = (Inr (train, test, val), w3)"
    using f t(1) v(1) r(1) by (simp add: DataGenerator_def)
  have ne: "nearest_even p1 (int (length test))" "nearest_even p2 (int (length val))"
    "nearest_even p3 (int (length train))"
    unfolding t(2) v(2) r(2) by (rule py_round_nearest_even)+
  have c100: "numICs = 100 \<longrightarrow> length train = 70 \<and> length test = 10 \<and> length val = 20"
  proof
    assume e: "numICs = 100"
    have "int (length train) = 70" "int (length test) = 10" "int (length val) = 20"
      unfolding t(2) v(2) r(2) p1_def p2_def p3_def d_def e using counts_100 by simp_all
    then show "length train = 70 \<and> length test = 10 \<and> length val = 20" by linarith
  qed
  have c45: "numICs = 45 \<longrightarrow> length train = 31 \<and> length test = 4 \<and> length val = 9"
  proof
    assume e: "numICs = 45"
    have "int (length train) = 31" "int (length test) = 4" "int (length val) = 9"
      unfolding t(2) v(2) r(2) p1_def p2_def p3_def d_def e using counts_45 by simp_all
    then show "length train = 31 \<and> length test = 4 \<and> length val = 9" by linarith
  qed
  show ?thesis
    using f t(1) v(1) r(1) dg ne c100 c45 unfolding p1_def p2_def p3_def d_def by blast
qed

theorem data_generator_split_witness:
  "(\<exists>train test val w'.
     DataGenerator cycle_torch (0, 1) (0, 1) 100 1 1 3 (1 / 10) world0 = (Inr (train, test, val), w')
   \<and> length train = 70 \<and> length test = 10 \<and> length val = 20)
 \<and> (\<exists>train test val w'.
     DataGenerator cycle_torch (0, 1) (0, 1) 45 1 1 3 (1 / 10) world0 = (Inr (train, test, val), w')
   \<and> length train = 31 \<and> length test = 4 \<and> length val = 9)"
proof
  show "\<exists>train test val w'.
     DataGenerator cycle_torch (0, 1) (0, 1) 100 1 1 3 (1 / 10) world0 = (Inr (train, test, val), w')
   \<and> length train = 70 \<and> length test = 10 \<and> length val = 20"
    using data_generator_split [of 100 3 cycle_torch "(0, 1)" "(0, 1)" 1 1 "1 / 10" world0]
    by auto
  show "\<exists>train test val w'.
     DataGenerator cycle_torch (0, 1) (0, 1) 45 1 1 3 (1 / 10) world0 = (Inr (train, test, val), w')
   \<and> length train = 31 \<and> length test = 4 \<and> length val = 9"
    using data_generator_split [of 45 3 cycle_torch "(0, 1)" "(0, 1)" 1 1 "1 / 10" world0]
    by auto
qed

end
